theory Spec2Isabelle
  imports Complex_Main "HOL-Library.Word"
begin

section \<open>JavaScript values\<close>

text \<open>
  A JavaScript string is a sequence of UTF-16 code units. \<open>js\<close> turns an ASCII
  literal into such a sequence.
\<close>

type_synonym code_unit = "16 word"
type_synonym jsstring = "code_unit list"

definition js :: "string \<Rightarrow> jsstring" where
  "js s = map of_char s"

text \<open>
  White space as \<open>String.prototype.trim\<close> and the regular expression class \<open>\s\<close>
  know it: the white space and line terminator code points.
\<close>

definition isWhiteSpace :: "code_unit \<Rightarrow> bool" where
  "isWhiteSpace c =
     (c = 0x9 \<or> c = 0xA \<or> c = 0xB \<or> c = 0xC \<or> c = 0xD \<or> c = 0x20 \<or> c = 0xA0
      \<or> c = 0x1680 \<or> (0x2000 \<le> c \<and> c \<le> 0x200A) \<or> c = 0x2028 \<or> c = 0x2029
      \<or> c = 0x202F \<or> c = 0x205F \<or> c = 0x3000 \<or> c = 0xFEFF)"

text \<open>\<open>String.prototype.trim\<close>.\<close>

definition trim :: "jsstring \<Rightarrow> jsstring" where
  "trim s = rev (dropWhile isWhiteSpace (rev (dropWhile isWhiteSpace s)))"

text \<open>
  A JavaScript number is an IEEE double: \<open>NaN\<close>, an infinity, the negative zero, or
  \<open>Fin x\<close>, the finite double of value \<open>x\<close> (\<open>Fin 0\<close> is the positive zero). The
  comparison and the absolute value of doubles are exact, and are defined here. The
  arithmetic operators round their result, which may overflow to an infinity; they are
  parameters of the model (see \<open>builtins\<close> below), and nothing is assumed of the number
  they give.
\<close>

datatype jsnum = NaN | PosInf | NegInf | NegZero | Fin real

text \<open>\<open>Math.abs\<close>.\<close>

fun jsabs :: "jsnum \<Rightarrow> jsnum" where
  "jsabs NaN = NaN"
| "jsabs PosInf = PosInf"
| "jsabs NegInf = PosInf"
| "jsabs NegZero = Fin 0"
| "jsabs (Fin a) = Fin \<bar>a\<bar>"

text \<open>
  \<open>jsless x y\<close> is the comparison \<open>x < y\<close>; with a \<open>NaN\<close> it is false, and the two
  zeros compare as equal.
\<close>

fun jsless :: "jsnum \<Rightarrow> jsnum \<Rightarrow> bool" where
  "jsless NaN y = False"
| "jsless x NaN = False"
| "jsless (Fin a) (Fin b) = (a < b)"
| "jsless (Fin a) NegZero = (a < 0)"
| "jsless NegZero (Fin b) = (0 < b)"
| "jsless NegZero NegZero = False"
| "jsless x PosInf = (x \<noteq> PosInf)"
| "jsless NegInf y = (y \<noteq> NegInf)"
| "jsless x y = False"

text \<open>A value as \<open>JSON.parse\<close> returns it, or \<open>undefined\<close>.\<close>

datatype jsval =
    Undefined
  | Null
  | Boolean bool
  | Number jsnum
  | Str jsstring
  | Arr "jsval list"
  | Obj "(jsstring \<times> jsval) list"

datatype js_error = TypeError

text \<open>
  The built-in operations whose result is not computed here are parameters of the model:
  \<open>parseFloatStr\<close> is \<open>parseFloat\<close> on a string, \<open>stringToNumber\<close> the conversion
  of a string to a number that the operators \<open>>\<close>, \<open>-\<close> and \<open>/\<close> apply,
  \<open>jsonParse\<close> is \<open>JSON.parse\<close> (\<open>None\<close> where it throws), and \<open>numAdd\<close>,
  \<open>numSub\<close>, \<open>numMul\<close> and \<open>numDiv\<close> are the operators \<open>+\<close>, \<open>-\<close>, \<open>*\<close>
  and \<open>/\<close> on two numbers, in double arithmetic.
\<close>

record builtins =
  parseFloatStr :: "jsstring \<Rightarrow> jsnum"
  stringToNumber :: "jsstring \<Rightarrow> jsnum"
  jsonParse :: "jsstring \<Rightarrow> jsval option"
  numAdd :: "jsnum \<Rightarrow> jsnum \<Rightarrow> jsnum"
  numSub :: "jsnum \<Rightarrow> jsnum \<Rightarrow> jsnum"
  numMul :: "jsnum \<Rightarrow> jsnum \<Rightarrow> jsnum"
  numDiv :: "jsnum \<Rightarrow> jsnum \<Rightarrow> jsnum"

text \<open>
  Built-ins for evaluating the model on inputs in which no string is read as a number,
  the only text given to \<open>JSON.parse\<close> is no JSON text, and every arithmetic operation
  has finite operands, a divisor that is not zero, and an exact result that is a double:
  there the operation of double arithmetic gives the exact result, as \<open>exactly\<close> does.
  On other operands \<open>exactly\<close> gives \<open>NaN\<close>; it is not evaluated there.
\<close>

fun exactly :: "(real \<Rightarrow> real \<Rightarrow> real) \<Rightarrow> jsnum \<Rightarrow> jsnum \<Rightarrow> jsnum" where
  "exactly f (Fin a) (Fin b) = Fin (f a b)"
| "exactly f x y = NaN"

definition plainBuiltins :: builtins where
  "plainBuiltins =
     \<lparr>parseFloatStr = (\<lambda>s. NaN), stringToNumber = (\<lambda>s. NaN), jsonParse = (\<lambda>s. None),
      numAdd = exactly (+), numSub = exactly (-), numMul = exactly (*),
      numDiv = exactly (/)\<rparr>"

text \<open>Truthiness (\<open>ToBoolean\<close>).\<close>

fun toBoolean :: "jsval \<Rightarrow> bool" where
  "toBoolean Undefined = False"
| "toBoolean Null = False"
| "toBoolean (Boolean b) = b"
| "toBoolean (Number n) = (n \<noteq> NaN \<and> n \<noteq> Fin 0 \<and> n \<noteq> NegZero)"
| "toBoolean (Str s) = (s \<noteq> [])"
| "toBoolean (Arr xs) = True"
| "toBoolean (Obj kvs) = True"

text \<open>
  Reading a property \<open>v.k\<close>, for a name \<open>k\<close> that no built-in prototype defines
  (as every name this program reads): a type error on \<open>undefined\<close> and \<open>null\<close>,
  the bound value on an object that has the key, \<open>undefined\<close> otherwise.
\<close>

fun getProp :: "jsval \<Rightarrow> jsstring \<Rightarrow> js_error + jsval" where
  "getProp Undefined k = Inl TypeError"
| "getProp Null k = Inl TypeError"
| "getProp (Obj kvs) k = Inr (case map_of kvs k of None \<Rightarrow> Undefined | Some v \<Rightarrow> v)"
| "getProp v k = Inr Undefined"

text \<open>Optional chaining \<open>v?.k\<close> and \<open>v?.[0]\<close>, and \<open>v ?? d\<close>.\<close>

definition optChain :: "jsval \<Rightarrow> jsstring \<Rightarrow> jsval" where
  "optChain v k = (case getProp v k of Inl e \<Rightarrow> Undefined | Inr x \<Rightarrow> x)"

fun optIndex0 :: "jsval \<Rightarrow> jsval" where
  "optIndex0 (Arr (x # xs)) = x"
| "optIndex0 (Str (c # cs)) = Str [c]"
| "optIndex0 (Obj kvs) = optChain (Obj kvs) (js ''0'')"
| "optIndex0 v = Undefined"

fun nullish :: "jsval \<Rightarrow> jsval \<Rightarrow> jsval" where
  "nullish Undefined d = d"
| "nullish Null d = d"
| "nullish v d = v"

text \<open>
  The conversion of a value to a string (\<open>ToString\<close>, which \<open>parseFloat\<close> applies to
  its argument) and to a number (\<open>ToNumber\<close>) first turns an object into a primitive
  value, by the methods \<open>toString\<close> and \<open>valueOf\<close> of the object, tried in this order
  for a string and in the other order for a number; a property that is no function is
  passed over, and so is a result that is an object; when both are, the conversion throws
  a type error. An object built by \<open>JSON.parse\<close> inherits the two methods from
  \<open>Object.prototype\<close>, unless it has a key of that name of its own, whose value is no
  function. The inherited \<open>valueOf\<close> returns the object itself. So the conversion of
  such an object goes by the inherited \<open>toString\<close>, and throws exactly when the
  object has a key \<open>toString\<close>. The \<open>toString\<close> of an array joins the string forms of
  its elements by commas, \<open>null\<close> and \<open>undefined\<close> giving the empty string; it
  throws when the conversion of an element does.
\<close>

fun conversionThrows :: "jsval \<Rightarrow> bool" where
  "conversionThrows (Obj kvs) = (map_of kvs (js ''toString'') \<noteq> None)"
| "conversionThrows (Arr xs) = list_ex conversionThrows xs"
| "conversionThrows v = False"

text \<open>
  \<open>parseFloat\<close> reads the longest numeric prefix of the string form of its argument.
  \<open>parseFloatOf\<close> is the number it gives when the conversion to a string does not
  throw. The string form of a number reads back as that number, the one of the negative
  zero as 0. The string form of an array joins those of its elements by commas, so only
  the first element counts; the string forms of \<open>undefined\<close>, \<open>null\<close>, a boolean and
  an object start with no number.
\<close>

fun parseFloatOf :: "builtins \<Rightarrow> jsval \<Rightarrow> jsnum" where
  "parseFloatOf B (Number NegZero) = Fin 0"
| "parseFloatOf B (Number n) = n"
| "parseFloatOf B (Str s) = parseFloatStr B s"
| "parseFloatOf B (Arr (x # xs)) = parseFloatOf B x"
| "parseFloatOf B v = NaN"

definition parseFloat :: "builtins \<Rightarrow> jsval \<Rightarrow> js_error + jsnum" where
  "parseFloat B v = (if conversionThrows v then Inl TypeError else Inr (parseFloatOf B v))"

text \<open>
  \<open>ToNumber\<close>, as the operators \<open>>\<close>, \<open>-\<close> and \<open>/\<close> apply it; \<open>toNumberOf\<close> is
  the number it gives when the conversion does not throw. An array goes through its
  string form: empty for no element, the element's string form for one element, a text
  with a comma (no number) for more.
\<close>

fun toNumberOf :: "builtins \<Rightarrow> jsval \<Rightarrow> jsnum" where
  "toNumberOf B Undefined = NaN"
| "toNumberOf B Null = Fin 0"
| "toNumberOf B (Boolean b) = Fin (if b then 1 else 0)"
| "toNumberOf B (Number n) = n"
| "toNumberOf B (Str s) = stringToNumber B s"
| "toNumberOf B (Arr []) = Fin 0"
| "toNumberOf B (Arr [Undefined]) = Fin 0"
| "toNumberOf B (Arr [Null]) = Fin 0"
| "toNumberOf B (Arr [Boolean b]) = NaN"
| "toNumberOf B (Arr [Number NegZero]) = Fin 0"
| "toNumberOf B (Arr [Number n]) = n"
| "toNumberOf B (Arr [Str s]) = stringToNumber B s"
| "toNumberOf B (Arr [Arr ys]) = toNumberOf B (Arr ys)"
| "toNumberOf B (Arr [Obj kvs]) = NaN"
| "toNumberOf B (Arr (x # y # zs)) = NaN"
| "toNumberOf B (Obj kvs) = NaN"

definition toNumber :: "builtins \<Rightarrow> jsval \<Rightarrow> js_error + jsnum" where
  "toNumber B v = (if conversionThrows v then Inl TypeError else Inr (toNumberOf B v))"

section \<open>Score aggregation\<close>

text \<open>
  \<open>calculateTotals\<close> returns an object \<open>{total, worth, pct}\<close>. \<open>worth\<close> is whatever
  value \<open>result.testworth\<close> holds when that is truthy, so it is a value, not a number.
\<close>

record totals =
  total :: jsnum
  worth :: jsval
  pct :: jsnum

text \<open>\<open>n || d\<close> for a number \<open>n\<close>: \<open>d\<close> when \<open>n\<close> is \<open>NaN\<close> or a zero.\<close>

definition orElse :: "jsnum \<Rightarrow> jsnum \<Rightarrow> jsnum" where
  "orElse n d = (if toBoolean (Number n) then n else d)"

text \<open>\<open>Array.prototype.reduce\<close> with a start value; a callback that throws ends it.\<close>

fun reduce :: "('a \<Rightarrow> jsval \<Rightarrow> js_error + 'a) \<Rightarrow> 'a \<Rightarrow> jsval list \<Rightarrow> js_error + 'a" where
  "reduce f acc [] = Inr acc"
| "reduce f acc (q # qs) =
     (case f acc q of Inl e \<Rightarrow> Inl e | Inr acc' \<Rightarrow> reduce f acc' qs)"

text \<open>
  \<open>v.reduce(f, init)\<close>: only an array has the method; on any other value the call is
  a type error.
\<close>

fun callReduce :: "jsval \<Rightarrow> ('a \<Rightarrow> jsval \<Rightarrow> js_error + 'a) \<Rightarrow> 'a \<Rightarrow> js_error + 'a" where
  "callReduce (Arr qs) f init = reduce f init qs"
| "callReduce v f init = Inl TypeError"

text \<open>The two callbacks: \<open>sum + (parseFloat(q.questionscore) || 0)\<close> and
  \<open>sum + (parseFloat(q.maxscore) || 1)\<close>.\<close>

definition addScore :: "builtins \<Rightarrow> jsnum \<Rightarrow> jsval \<Rightarrow> js_error + jsnum" where
  "addScore B acc q =
     (case getProp q (js ''questionscore'') of
        Inl e \<Rightarrow> Inl e
      | Inr v \<Rightarrow>
         (case parseFloat B v of
            Inl e \<Rightarrow> Inl e
          | Inr n \<Rightarrow> Inr (numAdd B acc (orElse n (Fin 0)))))"

definition addMax :: "builtins \<Rightarrow> jsnum \<Rightarrow> jsval \<Rightarrow> js_error + jsnum" where
  "addMax B acc q =
     (case getProp q (js ''maxscore'') of
        Inl e \<Rightarrow> Inl e
      | Inr v \<Rightarrow>
         (case parseFloat B v of
            Inl e \<Rightarrow> Inl e
          | Inr n \<Rightarrow> Inr (numAdd B acc (orElse n (Fin 1)))))"

definition zeroTotals :: totals where
  "zeroTotals = \<lparr>total = Fin 0, worth = Number (Fin 0), pct = Fin 0\<rparr>"

text \<open>The double nearest to 0.01, which the literal \<open>0.01\<close> denotes.\<close>

definition hundredth :: jsnum where
  "hundredth = Fin (5764607523034235 / 2 ^ 59)"

text \<open>
  The test of the warning:
  \<open>result.total_score && Math.abs(result.total_score - total) > 0.01\<close>. The
  subtraction converts a truthy \<open>total_score\<close> to a number, which may throw.
\<close>

definition mismatch :: "builtins \<Rightarrow> jsval \<Rightarrow> jsnum \<Rightarrow> js_error + bool" where
  "mismatch B reported t =
     (if \<not> toBoolean reported then Inr False
      else case toNumber B reported of
        Inl e \<Rightarrow> Inl e
      | Inr n \<Rightarrow> Inr (jsless hundredth (jsabs (numSub B n t))))"

text \<open>
  \<open>calculateTotals\<close>. The second component of the result tells whether the mismatch
  warning went to the console. The test \<open>worth > 0\<close> converts \<open>worth\<close> to a number,
  which may throw; the division converts it again, to the same number.
\<close>

definition calculateTotals :: "builtins \<Rightarrow> jsval \<Rightarrow> js_error + (totals \<times> bool)" where
  "calculateTotals B result =
     (if \<not> toBoolean result then Inr (zeroTotals, False)
      else case getProp result (js ''questions'') of
        Inl e \<Rightarrow> Inl e
      | Inr questions \<Rightarrow>
          if \<not> toBoolean questions then Inr (zeroTotals, False)
          else case callReduce questions (addScore B) (Fin 0) of
            Inl e \<Rightarrow> Inl e
          | Inr t \<Rightarrow>
             (case getProp result (js ''testworth'') of
                Inl e \<Rightarrow> Inl e
              | Inr testworth \<Rightarrow>
                 (case (if toBoolean testworth then Inr testworth
                        else map_sum id Number (callReduce questions (addMax B) (Fin 0))) of
                    Inl e \<Rightarrow> Inl e
                  | Inr w \<Rightarrow>
                     (case toNumber B w of
                        Inl e \<Rightarrow> Inl e
                      | Inr wn \<Rightarrow>
                         (case getProp result (js ''total_score'') of
                            Inl e \<Rightarrow> Inl e
                          | Inr reported \<Rightarrow>
                             (case mismatch B reported t of
                                Inl e \<Rightarrow> Inl e
                              | Inr warned \<Rightarrow>
                                  Inr (\<lparr>total = t, worth = w,
                                        pct = (if jsless (Fin 0) wn
                                               then numMul B (numDiv B t wn) (Fin 100)
                                               else Fin 0)\<rparr>,
                                       warned)))))))"

subsection \<open>What the specification says of the aggregate\<close>

text \<open>The sum of a list of numbers: each is added to the sum of those before it, from 0.\<close>

definition sumLeft :: "builtins \<Rightarrow> jsnum list \<Rightarrow> jsnum" where
  "sumLeft B xs = foldl (numAdd B) (Fin 0) xs"

text \<open>
  The specification's score of a question: its \<open>questionscore\<close> coerced to a number,
  a missing or non-numeric value coerced to 0 (and the negative zero to 0).
\<close>

definition coercedScore :: "builtins \<Rightarrow> jsval \<Rightarrow> jsnum" where
  "coercedScore B q =
     (let n = parseFloatOf B (optChain q (js ''questionscore''))
      in if n = NaN \<or> n = NegZero then Fin 0 else n)"

text \<open>
  The specification's maximum of a question: its \<open>maxscore\<close> coerced to a number, a
  missing \<open>maxscore\<close> counting as 1.
\<close>

definition declaredMax :: "builtins \<Rightarrow> jsval \<Rightarrow> jsnum" where
  "declaredMax B q =
     (let v = optChain q (js ''maxscore'')
      in if v = Undefined then Fin 1 else parseFloatOf B v)"

text \<open>
  What the code adds for a question: a \<open>maxscore\<close> that is missing, not numeric or zero
  counts as 1.
\<close>

definition countedMax :: "builtins \<Rightarrow> jsval \<Rightarrow> jsnum" where
  "countedMax B q =
     (let n = parseFloatOf B (optChain q (js ''maxscore''))
      in if n = NaN \<or> n = Fin 0 \<or> n = NegZero then Fin 1 else n)"

text \<open>
  A convertible value: one whose conversion to a string or a number does not throw.
  That is every number, string, boolean, \<open>null\<close> and \<open>undefined\<close>, every object
  without a key \<open>toString\<close>, and every array of such values.
\<close>

definition convertible :: "jsval \<Rightarrow> bool" where
  "convertible v = (\<not> conversionThrows v)"

text \<open>
  A question list: an array none of whose elements is \<open>null\<close> or \<open>undefined\<close>, and in
  whose elements \<open>questionscore\<close> and \<open>maxscore\<close> are missing or convertible.
\<close>

definition questionList :: "jsval list \<Rightarrow> bool" where
  "questionList qs =
     list_all (\<lambda>q. q \<noteq> Undefined \<and> q \<noteq> Null
                 \<and> convertible (optChain q (js ''questionscore''))
                 \<and> convertible (optChain q (js ''maxscore''))) qs"

section \<open>Student records and the CSV export\<close>

text \<open>
  The \<open>status\<close> field holds one of the strings \<open>idle\<close>, \<open>sent\<close>,
  \<open>processing (<n>s)\<close>, \<open>received\<close>, \<open>displayed\<close> and \<open>error\<close>.
\<close>

datatype status = Idle | Sent | Processing nat | Received | Displayed | Error

text \<open>
  An element of the \<open>students\<close> state:
  \<open>{name, content, result, status, gradedAt, elapsed}\<close>. \<open>result\<close> and \<open>gradedAt\<close>
  start as \<open>null\<close>.
\<close>

record student =
  name :: jsstring
  content :: jsstring
  result :: jsval
  status :: status
  gradedAt :: jsval
  elapsed :: nat


section \<open>Grading one record\<close>

text \<open>
  What the environment does during one call of \<open>gradeOne\<close>: how the \<open>fetch\<close> settles,
  how often the one-second timer fires while the call awaits the response and while it
  awaits the body, and the time \<open>new Date().toISOString()\<close> reads. A response carries
  its HTTP status and what \<open>response.json()\<close> gives: \<open>None\<close> when it rejects.
\<close>

datatype fetch_outcome = FetchRejected | FetchResponse nat "jsval option"

record grade_run =
  fetched :: fetch_outcome
  ticksWhileFetching :: nat
  ticksWhileReading :: nat
  now :: jsstring

text \<open>
  The timer callback: \<open>seconds++\<close>, then
  \<open>updateStudent(index, {status: `processing (${seconds}s)`, elapsed: seconds})\<close>.
  \<open>ticks m k\<close> runs it \<open>k\<close> times from the count \<open>m\<close>.
\<close>

fun ticks :: "nat \<Rightarrow> nat \<Rightarrow> student \<Rightarrow> student" where
  "ticks m 0 s = s"
| "ticks m (Suc k) s = ticks (Suc m) k (s\<lparr>status := Processing (Suc m), elapsed := Suc m\<rparr>)"

text \<open>\<open>data?.choices?.[0]?.message?.content ?? ""\<close>\<close>

definition messageContent :: "jsval \<Rightarrow> jsval" where
  "messageContent data =
     nullish (optChain (optChain (optIndex0 (optChain data (js ''choices''))) (js ''message''))
                (js ''content''))
             (Str [])"

definition isLetter :: "code_unit \<Rightarrow> bool" where
  "isLetter c = ((0x41 \<le> c \<and> c \<le> 0x5A) \<or> (0x61 \<le> c \<and> c \<le> 0x7A))"

text \<open>
  The unwrapping of a fenced block: when the trimmed text starts with three backticks,
  \<open>replace(/^```[a-zA-Z]*\n?/, "")\<close> and then \<open>replace(/```$/, "")\<close>.
\<close>

definition dropOpeningFence :: "jsstring \<Rightarrow> jsstring" where
  "dropOpeningFence s =
     (case dropWhile isLetter (drop 3 s) of
        [] \<Rightarrow> []
      | c # cs \<Rightarrow> if c = 0xA then cs else c # cs)"

definition dropClosingFence :: "jsstring \<Rightarrow> jsstring" where
  "dropClosingFence s =
     (if 3 \<le> length s \<and> drop (length s - 3) s = js ''```'' then take (length s - 3) s else s)"

definition cleanResponse :: "jsstring \<Rightarrow> jsstring" where
  "cleanResponse text =
     (let cleaned = trim text
      in if take 3 cleaned = js ''```'' then dropClosingFence (dropOpeningFence cleaned)
         else cleaned)"

text \<open>The result stored when \<open>JSON.parse\<close> throws.\<close>

definition parseErrorResult :: "jsstring \<Rightarrow> jsval" where
  "parseErrorResult text =
     Obj [(js ''error'', Str (js ''Could not parse GPT response'')), (js ''raw'', Str text)]"

text \<open>
  \<open>gradeOne\<close>, as the state of the record at \<open>index\<close> after the call has settled. Every
  \<open>updateStudent(index, updates)\<close> overwrites the named fields of that record. A rejected
  \<open>fetch\<close>, a rejected \<open>response.json()\<close> and the type error of \<open>text.trim()\<close> on a
  content that is no string all end in the outer \<open>catch\<close>. The HTTP status of the
  response is not read.
\<close>

definition gradeOne :: "builtins \<Rightarrow> grade_run \<Rightarrow> student \<Rightarrow> student" where
  "gradeOne B run s0 =
     (let s1 = ticks 0 (ticksWhileFetching run) (s0\<lparr>status := Sent, elapsed := 0\<rparr>)
      in case fetched run of
           FetchRejected \<Rightarrow> s1\<lparr>status := Error\<rparr>
         | FetchResponse code body \<Rightarrow>
            (let s2 = ticks (ticksWhileFetching run) (ticksWhileReading run)
                        (s1\<lparr>status := Received\<rparr>)
             in case body of
                  None \<Rightarrow> s2\<lparr>status := Error\<rparr>
                | Some data \<Rightarrow>
                   (case messageContent data of
                      Str text \<Rightarrow>
                        s2\<lparr>result :=
                              (case jsonParse B (cleanResponse text) of
                                 Some parsed \<Rightarrow> parsed
                               | None \<Rightarrow> parseErrorResult text),
                            gradedAt := Str (now run),
                            status := Displayed\<rparr>
                    | other \<Rightarrow> s2\<lparr>status := Error\<rparr>)))"

section \<open>Splitting a text into students\<close>

subsection \<open>The delimiter pattern\<close>

text \<open>
  The regular expression \<open>/\n\s*(Student:|Name:|Page \d+|-----+)\s*\n/i\<close> is written
  with backtracking matchers in continuation style: a matcher takes the matcher of what
  follows it and the text at the current position, and gives the result of the first
  successful way to match, \<open>None\<close> when there is none.

  Under the \<open>i\<close> flag a pattern character matches a character of the text when both
  have the same canonical form. For the ASCII characters of this pattern that is
  equality up to the case of an ASCII letter: a character outside ASCII never
  canonicalises to an ASCII one.
\<close>

type_synonym 'a matcher = "jsstring \<Rightarrow> 'a option"

definition asciiUpper :: "code_unit \<Rightarrow> code_unit" where
  "asciiUpper c = (if 0x61 \<le> c \<and> c \<le> 0x7A then c - 0x20 else c)"

definition chr :: "code_unit \<Rightarrow> 'a matcher \<Rightarrow> 'a matcher" where
  "chr p k s =
     (case s of [] \<Rightarrow> None
      | c # cs \<Rightarrow> if asciiUpper c = asciiUpper p then k cs else None)"

fun chars :: "jsstring \<Rightarrow> 'a matcher \<Rightarrow> 'a matcher" where
  "chars [] k = k"
| "chars (p # ps) k = chr p (chars ps k)"

text \<open>A character class, its greedy repetition \<open>X*\<close>, and \<open>X+\<close>.\<close>

definition cls :: "(code_unit \<Rightarrow> bool) \<Rightarrow> 'a matcher \<Rightarrow> 'a matcher" where
  "cls P k s = (case s of [] \<Rightarrow> None | c # cs \<Rightarrow> if P c then k cs else None)"

fun many :: "(code_unit \<Rightarrow> bool) \<Rightarrow> 'a matcher \<Rightarrow> 'a matcher" where
  "many P k [] = k []"
| "many P k (c # cs) =
     (if P c then (case many P k cs of Some r \<Rightarrow> Some r | None \<Rightarrow> k (c # cs))
      else k (c # cs))"

definition many1 :: "(code_unit \<Rightarrow> bool) \<Rightarrow> 'a matcher \<Rightarrow> 'a matcher" where
  "many1 P k = cls P (many P k)"

text \<open>An alternative \<open>a|b\<close>, and a capturing group.\<close>

definition either ::
  "('a matcher \<Rightarrow> 'a matcher) \<Rightarrow> ('a matcher \<Rightarrow> 'a matcher) \<Rightarrow> 'a matcher \<Rightarrow> 'a matcher" where
  "either a b k s = (case a k s of Some r \<Rightarrow> Some r | None \<Rightarrow> b k s)"

definition capture ::
  "('a matcher \<Rightarrow> 'a matcher) \<Rightarrow> (jsstring \<Rightarrow> 'a matcher) \<Rightarrow> 'a matcher" where
  "capture m k s = m (\<lambda>s'. k (take (length s - length s') s) s') s"

definition isDigit :: "code_unit \<Rightarrow> bool" where
  "isDigit c = (0x30 \<le> c \<and> c \<le> 0x39)"

definition isDash :: "code_unit \<Rightarrow> bool" where
  "isDash c = (c = 0x2D)"

text \<open>
  The pattern, matched at the start of the text: the captured group and the text after
  the match.
\<close>

definition delimiter :: "jsstring \<Rightarrow> (jsstring \<times> jsstring) option" where
  "delimiter =
     chr 0xA
       (many isWhiteSpace
          (capture
             (either (chars (js ''Student:''))
                (either (chars (js ''Name:''))
                   (either (chars (js ''Page '') \<circ> many1 isDigit)
                      (chars (js ''----'') \<circ> many1 isDash))))
             (\<lambda>token. many isWhiteSpace (chr 0xA (\<lambda>rest. Some (token, rest))))))"

subsection \<open>What the pattern matches\<close>

text \<open>
  The text after the last newline of the white space a text starts with: where
  \<open>\s*\n\<close> ends, being greedy.
\<close>

fun lastNewline :: "jsstring \<Rightarrow> jsstring option" where
  "lastNewline [] = None"
| "lastNewline (c # cs) =
     (if isWhiteSpace c
      then (case lastNewline cs of Some r \<Rightarrow> Some r
            | None \<Rightarrow> if c = 0xA then Some cs else None)
      else None)"

text \<open>
  The length of the text the group matches at the start of a text, when it is followed
  by white space. The four alternatives start with different characters.
\<close>

definition tokenLength :: "jsstring \<Rightarrow> nat option" where
  "tokenLength s =
     (if map asciiUpper (take 8 s) = js ''STUDENT:'' then Some 8
      else if map asciiUpper (take 5 s) = js ''NAME:'' then Some 5
      else if map asciiUpper (take 5 s) = js ''PAGE '' \<and> takeWhile isDigit (drop 5 s) \<noteq> []
        then Some (5 + length (takeWhile isDigit (drop 5 s)))
      else if map asciiUpper (take 4 s) = js ''----'' \<and> takeWhile isDash (drop 4 s) \<noteq> []
        then Some (4 + length (takeWhile isDash (drop 4 s)))
      else None)"

text \<open>
  The texts the group captures: \<open>Student:\<close> and \<open>Name:\<close> in any case, \<open>Page\<close> in any
  case with a space and one or more digits, and five or more dashes.
\<close>

definition isToken :: "jsstring \<Rightarrow> bool" where
  "isToken t =
     (map asciiUpper t = js ''STUDENT:'' \<or> map asciiUpper t = js ''NAME:''
      \<or> (map asciiUpper (take 5 t) = js ''PAGE '' \<and> drop 5 t \<noteq> [] \<and> list_all isDigit (drop 5 t))
      \<or> (5 \<le> length t \<and> list_all isDash t))"

lemma asciiUpper_newline: "asciiUpper c = 0xA \<longleftrightarrow> c = 0xA"
  unfolding asciiUpper_def
  by (auto simp: word_le_nat_alt word_less_nat_alt unat_sub)

lemma asciiUpper_dash: "asciiUpper c = 0x2D \<longleftrightarrow> c = 0x2D"
  unfolding asciiUpper_def
  by (auto simp: word_le_nat_alt word_less_nat_alt unat_sub)

lemma newline_ws: "isWhiteSpace 0xA"
  by (simp add: isWhiteSpace_def)

lemma digit_not_ws: "isDigit c \<Longrightarrow> \<not> isWhiteSpace c"
  unfolding isWhiteSpace_def isDigit_def
  by (auto simp: word_le_nat_alt)

lemma dash_not_ws: "isDash c \<Longrightarrow> \<not> isWhiteSpace c"
  unfolding isWhiteSpace_def isDash_def
  by (auto simp: word_le_nat_alt)

lemma chr_Nil: "chr p k [] = None"
  by (simp add: chr_def)

lemma chr_Cons: "chr p k (c # cs) = (if asciiUpper c = asciiUpper p then k cs else None)"
  by (simp add: chr_def)

lemma chr_newline_Cons: "chr 0xA k (c # cs) = (if c = 0xA then k cs else None)"
  by (simp add: chr_Cons asciiUpper_newline [of c, symmetric]) (simp add: asciiUpper_def)

lemma many_ws_newline:
  "many isWhiteSpace (chr 0xA (\<lambda>rest. Some (g, rest))) s = map_option (Pair g) (lastNewline s)"
proof (induction s)
  case Nil
  show ?case by (simp add: chr_Nil)
next
  case (Cons c cs)
  show ?case
  proof (cases "isWhiteSpace c")
    case True
    then show ?thesis
      using Cons by (cases "lastNewline cs") (simp_all add: chr_newline_Cons)
  next
    case False
    then have "c \<noteq> 0xA" using newline_ws by auto
    with False show ?thesis
      by (simp add: chr_newline_Cons)
  qed
qed

lemma many_reject:
  "(\<And>c cs. P c \<Longrightarrow> k (c # cs) = None) \<Longrightarrow> many P k s = k (dropWhile P s)"
  by (induction s) (simp_all split: option.splits)

lemma many1_reject:
  assumes "\<And>c cs. P c \<Longrightarrow> k (c # cs) = None"
  shows "many1 P k s = (if takeWhile P s \<noteq> [] then k (dropWhile P s) else None)"
  using many_reject [of P k, OF assms]
  by (cases s) (simp_all add: many1_def cls_def)

lemma chars_eq:
  "chars ps k s =
     (if map asciiUpper (take (length ps) s) = map asciiUpper ps then k (drop (length ps) s)
      else None)"
proof (induction ps arbitrary: s)
  case Nil
  show ?case by simp
next
  case (Cons p ps)
  show ?case
    by (cases s) (simp_all add: chr_Nil chr_Cons Cons)
qed

lemma map_take_hd: "map f (take n s) = x # xs \<Longrightarrow> s \<noteq> [] \<and> f (hd s) = x"
  by (cases s; cases n) auto

lemma map_take_length: "map f (take n s) = ys \<Longrightarrow> length ys = n \<Longrightarrow> n \<le> length s"
  by (metis length_map length_take min.cobounded1 min.commute)

lemma up_Student: "map asciiUpper (js ''Student:'') = js ''STUDENT:''"
  by (simp add: js_def asciiUpper_def)

lemma up_Name: "map asciiUpper (js ''Name:'') = js ''NAME:''"
  by (simp add: js_def asciiUpper_def)

lemma up_Page: "map asciiUpper (js ''Page '') = js ''PAGE ''"
  by (simp add: js_def asciiUpper_def)

lemma up_dashes: "map asciiUpper (js ''----'') = js ''----''"
  by (simp add: js_def asciiUpper_def)

lemma up_eq_dashes: "map asciiUpper xs = js ''----'' \<longleftrightarrow> xs = js ''----''"
  by (auto simp: js_def map_eq_Cons_conv asciiUpper_dash)

lemma chars_Student:
  "chars (js ''Student:'') k s =
     (if map asciiUpper (take 8 s) = js ''STUDENT:'' then k (drop 8 s) else None)"
proof -
  have "length (js ''Student:'') = 8" by (simp add: js_def)
  with chars_eq [of "js ''Student:''" k s] show ?thesis
    by (simp only: up_Student)
qed

lemma chars_Name:
  "chars (js ''Name:'') k s =
     (if map asciiUpper (take 5 s) = js ''NAME:'' then k (drop 5 s) else None)"
proof -
  have "length (js ''Name:'') = 5" by (simp add: js_def)
  with chars_eq [of "js ''Name:''" k s] show ?thesis
    by (simp only: up_Name)
qed

lemma chars_Page:
  "chars (js ''Page '') k s =
     (if map asciiUpper (take 5 s) = js ''PAGE '' then k (drop 5 s) else None)"
proof -
  have "length (js ''Page '') = 5" by (simp add: js_def)
  with chars_eq [of "js ''Page ''" k s] show ?thesis
    by (simp only: up_Page)
qed

lemma chars_dashes:
  "chars (js ''----'') k s =
     (if map asciiUpper (take 4 s) = js ''----'' then k (drop 4 s) else None)"
proof -
  have "length (js ''----'') = 4" by (simp add: js_def)
  with chars_eq [of "js ''----''" k s] show ?thesis
    by (simp only: up_dashes)
qed

lemma length_dropWhile_drop:
  "n \<le> length s \<Longrightarrow>
   length s - length (dropWhile P (drop n s)) = n + length (takeWhile P (drop n s))"
proof -
  assume n: "n \<le> length s"
  have "length (takeWhile P (drop n s)) + length (dropWhile P (drop n s)) = length (drop n s)"
    by (metis length_append takeWhile_dropWhile_id)
  with n show ?thesis by simp
qed

lemma group_det:
  "capture
     (either (chars (js ''Student:''))
        (either (chars (js ''Name:''))
           (either (chars (js ''Page '') \<circ> many1 isDigit)
              (chars (js ''----'') \<circ> many1 isDash))))
     (\<lambda>token. many isWhiteSpace (chr 0xA (\<lambda>rest. Some (token, rest)))) s
   = (case tokenLength s of
        None \<Rightarrow> None
      | Some n \<Rightarrow> map_option (Pair (take n s)) (lastNewline (drop n s)))"
proof -
  define k where "k = (\<lambda>s'. map_option (Pair (take (length s - length s') s)) (lastNewline s'))"
  have digit: "k (c # cs) = None" if "isDigit c" for c cs
    using that digit_not_ws by (simp add: k_def)
  have dash: "k (c # cs) = None" if "isDash c" for c cs
    using that dash_not_ws by (simp add: k_def)
  have A: "chars (js ''Student:'') k s =
            (if map asciiUpper (take 8 s) = js ''STUDENT:''
             then map_option (Pair (take 8 s)) (lastNewline (drop 8 s)) else None)"
  proof (cases "map asciiUpper (take 8 s) = js ''STUDENT:''")
    case True
    then have "8 \<le> length s"
      by (rule map_take_length) (simp add: js_def)
    with True show ?thesis
      by (simp add: chars_Student k_def)
  next
    case False
    then show ?thesis
      by (simp add: chars_Student)
  qed
  have B: "chars (js ''Name:'') k s =
            (if map asciiUpper (take 5 s) = js ''NAME:''
             then map_option (Pair (take 5 s)) (lastNewline (drop 5 s)) else None)"
  proof (cases "map asciiUpper (take 5 s) = js ''NAME:''")
    case True
    then have "5 \<le> length s"
      by (rule map_take_length) (simp add: js_def)
    with True show ?thesis
      by (simp add: chars_Name k_def)
  next
    case False
    then show ?thesis
      by (simp add: chars_Name)
  qed
  have C: "(chars (js ''Page '') \<circ> many1 isDigit) k s =
            (if map asciiUpper (take 5 s) = js ''PAGE '' \<and> takeWhile isDigit (drop 5 s) \<noteq> []
             then map_option (Pair (take (5 + length (takeWhile isDigit (drop 5 s))) s))
                    (lastNewline (drop (5 + length (takeWhile isDigit (drop 5 s))) s))
             else None)"
  proof (cases "map asciiUpper (take 5 s) = js ''PAGE ''")
    case True
    then have l: "5 \<le> length s"
      by (rule map_take_length) (simp add: js_def)
    have d: "dropWhile isDigit (drop 5 s) = drop (5 + length (takeWhile isDigit (drop 5 s))) s"
      by (metis add.commute drop_drop dropWhile_eq_drop)
    have "(chars (js ''Page '') \<circ> many1 isDigit) k s = many1 isDigit k (drop 5 s)"
      using True by (simp add: chars_Page)
    also have "\<dots> = (if takeWhile isDigit (drop 5 s) \<noteq> []
                       then k (dropWhile isDigit (drop 5 s)) else None)"
      by (rule many1_reject) (rule digit)
    also have "k (dropWhile isDigit (drop 5 s)) =
                 map_option (Pair (take (5 + length (takeWhile isDigit (drop 5 s))) s))
                    (lastNewline (drop (5 + length (takeWhile isDigit (drop 5 s))) s))"
      by (simp only: k_def length_dropWhile_drop [OF l], simp only: d)
    finally show ?thesis using True by simp
  next
    case False
    then show ?thesis
      by (simp add: chars_Page)
  qed
  have D: "(chars (js ''----'') \<circ> many1 isDash) k s =
            (if map asciiUpper (take 4 s) = js ''----'' \<and> takeWhile isDash (drop 4 s) \<noteq> []
             then map_option (Pair (take (4 + length (takeWhile isDash (drop 4 s))) s))
                    (lastNewline (drop (4 + length (takeWhile isDash (drop 4 s))) s))
             else None)"
  proof (cases "map asciiUpper (take 4 s) = js ''----''")
    case True
    then have l: "4 \<le> length s"
      by (rule map_take_length) (simp add: js_def)
    have d: "dropWhile isDash (drop 4 s) = drop (4 + length (takeWhile isDash (drop 4 s))) s"
      by (metis add.commute drop_drop dropWhile_eq_drop)
    have "(chars (js ''----'') \<circ> many1 isDash) k s = many1 isDash k (drop 4 s)"
      using True by (simp add: chars_dashes)
    also have "\<dots> = (if takeWhile isDash (drop 4 s) \<noteq> []
                       then k (dropWhile isDash (drop 4 s)) else None)"
      by (rule many1_reject) (rule dash)
    also have "k (dropWhile isDash (drop 4 s)) =
                 map_option (Pair (take (4 + length (takeWhile isDash (drop 4 s))) s))
                    (lastNewline (drop (4 + length (takeWhile isDash (drop 4 s))) s))"
      by (simp only: k_def length_dropWhile_drop [OF l], simp only: d)
    finally show ?thesis using True by simp
  next
    case False
    then show ?thesis
      by (simp add: chars_dashes)
  qed
  have excl:
    "map asciiUpper (take 8 s) = js ''STUDENT:'' \<Longrightarrow> map asciiUpper (take 5 s) \<noteq> js ''NAME:''"
    "map asciiUpper (take 8 s) = js ''STUDENT:'' \<Longrightarrow> map asciiUpper (take 5 s) \<noteq> js ''PAGE ''"
    "map asciiUpper (take 8 s) = js ''STUDENT:'' \<Longrightarrow> map asciiUpper (take 4 s) \<noteq> js ''----''"
    "map asciiUpper (take 5 s) = js ''NAME:'' \<Longrightarrow> map asciiUpper (take 5 s) \<noteq> js ''PAGE ''"
    "map asciiUpper (take 5 s) = js ''NAME:'' \<Longrightarrow> map asciiUpper (take 4 s) \<noteq> js ''----''"
    "map asciiUpper (take 5 s) = js ''PAGE '' \<Longrightarrow> map asciiUpper (take 4 s) \<noteq> js ''----''"
    by (auto simp: js_def dest!: map_take_hd)
  have "capture
     (either (chars (js ''Student:''))
        (either (chars (js ''Name:''))
           (either (chars (js ''Page '') \<circ> many1 isDigit)
              (chars (js ''----'') \<circ> many1 isDash))))
     (\<lambda>token. many isWhiteSpace (chr 0xA (\<lambda>rest. Some (token, rest)))) s
     = either (chars (js ''Student:''))
        (either (chars (js ''Name:''))
           (either (chars (js ''Page '') \<circ> many1 isDigit)
              (chars (js ''----'') \<circ> many1 isDash))) k s"
    unfolding capture_def k_def many_ws_newline ..
  also have "\<dots> = (case tokenLength s of
        None \<Rightarrow> None
      | Some n \<Rightarrow> map_option (Pair (take n s)) (lastNewline (drop n s)))"
    unfolding either_def A B C D tokenLength_def
    using excl by (auto split: option.splits)
  finally show ?thesis .
qed

lemma ws_plain:
  "isWhiteSpace c \<Longrightarrow>
   asciiUpper c = c \<and> c \<noteq> 0x53 \<and> c \<noteq> 0x4E \<and> c \<noteq> 0x50 \<and> c \<noteq> 0x2D \<and> c \<noteq> 0x3A"
  unfolding isWhiteSpace_def asciiUpper_def
  by (auto simp: word_le_nat_alt)

lemma tokenLength_ws: "isWhiteSpace c \<Longrightarrow> tokenLength (c # cs) = None"
  unfolding tokenLength_def
  by (auto simp: js_def dest!: map_take_hd dest: ws_plain)

lemma delimiter_det:
  "delimiter s =
     (case s of
        [] \<Rightarrow> None
      | c # cs \<Rightarrow>
          if c = 0xA
          then (case tokenLength (dropWhile isWhiteSpace cs) of
                  None \<Rightarrow> None
                | Some n \<Rightarrow>
                    map_option (Pair (take n (dropWhile isWhiteSpace cs)))
                      (lastNewline (drop n (dropWhile isWhiteSpace cs))))
          else None)"
proof (cases s)
  case Nil
  then show ?thesis by (simp add: delimiter_def chr_Nil)
next
  case (Cons c cs)
  let ?g = "capture
     (either (chars (js ''Student:''))
        (either (chars (js ''Name:''))
           (either (chars (js ''Page '') \<circ> many1 isDigit)
              (chars (js ''----'') \<circ> many1 isDash))))
     (\<lambda>token. many isWhiteSpace (chr 0xA (\<lambda>rest. Some (token, rest))))"
  have rej: "?g (c # cs) = None" if "isWhiteSpace c" for c cs
    unfolding group_det using tokenLength_ws [OF that] by simp
  have "many isWhiteSpace ?g cs = ?g (dropWhile isWhiteSpace cs)"
    by (rule many_reject) (rule rej)
  then show ?thesis
    unfolding Cons delimiter_def chr_newline_Cons group_det by simp
qed

lemma lastNewline_None: "lastNewline s = None \<longleftrightarrow> 0xA \<notin> set (takeWhile isWhiteSpace s)"
  by (induction s) (auto split: option.splits)

lemma lastNewline_Some:
  "lastNewline s = Some rest \<longleftrightarrow>
     (\<exists>w. s = w @ 0xA # rest \<and> list_all isWhiteSpace w
          \<and> 0xA \<notin> set (takeWhile isWhiteSpace rest))"
proof
  show "lastNewline s = Some rest \<Longrightarrow>
     \<exists>w. s = w @ 0xA # rest \<and> list_all isWhiteSpace w \<and> 0xA \<notin> set (takeWhile isWhiteSpace rest)"
  proof (induction s)
    case Nil
    then show ?case by simp
  next
    case (Cons c cs)
    then have ws: "isWhiteSpace c" by (simp split: if_splits)
    show ?case
    proof (cases "lastNewline cs")
      case None
      with Cons.prems ws have "c = 0xA" "rest = cs" by (simp_all split: if_splits)
      with None show ?thesis
        by (intro exI [of _ "[]"]) (simp add: lastNewline_None)
    next
      case (Some r)
      with Cons.prems ws have "r = rest" by simp
      with Cons.IH Some obtain w where
        "cs = w @ 0xA # rest" "list_all isWhiteSpace w" "0xA \<notin> set (takeWhile isWhiteSpace rest)"
        by auto
      with ws show ?thesis
        by (intro exI [of _ "c # w"]) simp
    qed
  qed
next
  assume "\<exists>w. s = w @ 0xA # rest \<and> list_all isWhiteSpace w
              \<and> 0xA \<notin> set (takeWhile isWhiteSpace rest)"
  then obtain w where s: "s = w @ 0xA # rest" and w: "list_all isWhiteSpace w"
    and r: "0xA \<notin> set (takeWhile isWhiteSpace rest)" by auto
  from w show "lastNewline s = Some rest"
    unfolding s
  proof (induction w)
    case Nil
    with r show ?case by (simp add: newline_ws lastNewline_None [symmetric])
  next
    case (Cons c w)
    then show ?case by simp
  qed
qed

lemma take_add_takeWhile:
  "take (n + length (takeWhile P (drop n s))) s = take n s @ takeWhile P (drop n s)"
  by (simp add: take_add takeWhile_eq_take [symmetric])

lemma list_all_takeWhile: "list_all P (takeWhile P xs)"
  by (induction xs) simp_all

lemma tokenLength_Some:
  assumes "tokenLength s = Some n"
  shows "n \<le> length s \<and> isToken (take n s)"
proof -
  consider
      (student) "map asciiUpper (take 8 s) = js ''STUDENT:''" "n = 8"
    | (name) "map asciiUpper (take 5 s) = js ''NAME:''" "n = 5"
    | (page) "map asciiUpper (take 5 s) = js ''PAGE ''" "takeWhile isDigit (drop 5 s) \<noteq> []"
        "n = 5 + length (takeWhile isDigit (drop 5 s))"
    | (dashes) "map asciiUpper (take 4 s) = js ''----''" "takeWhile isDash (drop 4 s) \<noteq> []"
        "n = 4 + length (takeWhile isDash (drop 4 s))"
    using assms unfolding tokenLength_def by (auto split: if_splits)
  then show ?thesis
  proof cases
    case student
    from student(1) have "8 \<le> length s"
      by (rule map_take_length) (simp add: js_def)
    with student show ?thesis by (simp add: isToken_def)
  next
    case name
    from name(1) have "5 \<le> length s"
      by (rule map_take_length) (simp add: js_def)
    with name show ?thesis by (simp add: isToken_def)
  next
    case page
    from page(1) have l: "5 \<le> length s"
      by (rule map_take_length) (simp add: js_def)
    have t: "take n s = take 5 s @ takeWhile isDigit (drop 5 s)"
      unfolding page(3) by (rule take_add_takeWhile)
    have "length (takeWhile isDigit (drop 5 s)) \<le> length (drop 5 s)"
      by (rule length_takeWhile_le)
    with l have "n \<le> length s" unfolding page(3) by simp
    moreover have "isToken (take n s)"
      unfolding t isToken_def using page(1,2) l
      by (simp add: list_all_takeWhile)
    ultimately show ?thesis by simp
  next
    case dashes
    from dashes(1) have l: "4 \<le> length s"
      by (rule map_take_length) (simp add: js_def)
    have t: "take n s = take 4 s @ takeWhile isDash (drop 4 s)"
      unfolding dashes(3) by (rule take_add_takeWhile)
    have "length (takeWhile isDash (drop 4 s)) \<le> length (drop 4 s)"
      by (rule length_takeWhile_le)
    with l have n: "n \<le> length s" unfolding dashes(3) by simp
    have four: "take 4 s = js ''----''"
      using dashes(1) by (simp add: up_eq_dashes)
    have "list_all isDash (take 4 s)"
      unfolding four by (simp add: js_def isDash_def)
    moreover have "5 \<le> length (take n s)"
      using n dashes(2) unfolding dashes(3) by (cases "takeWhile isDash (drop 4 s)") simp_all
    ultimately have "isToken (take n s)"
      unfolding isToken_def t by (simp add: list_all_takeWhile)
    with n show ?thesis by simp
  qed
qed

lemma isToken_ends:
  assumes "isToken t"
  shows "t \<noteq> [] \<and> \<not> isWhiteSpace (hd t) \<and> \<not> isWhiteSpace (last t)"
proof -
  consider (student) "map asciiUpper t = js ''STUDENT:''"
    | (name) "map asciiUpper t = js ''NAME:''"
    | (page) "map asciiUpper (take 5 t) = js ''PAGE ''" "drop 5 t \<noteq> []" "list_all isDigit (drop 5 t)"
    | (dashes) "5 \<le> length t" "list_all isDash t"
    using assms unfolding isToken_def by auto
  then show ?thesis
  proof cases
    case student
    then show ?thesis
      by (auto simp: js_def map_eq_Cons_conv dest: ws_plain)
  next
    case name
    then show ?thesis
      by (auto simp: js_def map_eq_Cons_conv dest: ws_plain)
  next
    case page
    from page(1) have h: "t \<noteq> [] \<and> asciiUpper (hd t) = 0x50"
      by (auto simp: js_def dest!: map_take_hd)
    have "last t = last (drop 5 t)"
      using page(2) by simp
    moreover have "last (drop 5 t) \<in> set (drop 5 t)"
      by (rule last_in_set) (rule page(2))
    ultimately have "isDigit (last t)"
      using page(3) by (simp add: list_all_iff)
    with h show ?thesis
      by (auto dest: ws_plain digit_not_ws)
  next
    case dashes
    then have ne: "t \<noteq> []" by auto
    then have "hd t \<in> set t" "last t \<in> set t" by simp_all
    with dashes(2) have "isDash (hd t)" "isDash (last t)"
      by (simp_all add: list_all_iff)
    with ne show ?thesis
      by (auto dest: dash_not_ws)
  qed
qed

lemma takeWhile_append_stop:
  "list_all P ds \<Longrightarrow> r \<noteq> [] \<Longrightarrow> \<not> P (hd r) \<Longrightarrow> takeWhile P (ds @ r) = ds"
  by (induction ds) (auto simp: neq_Nil_conv)

lemma dropWhile_append_stop:
  "list_all P ds \<Longrightarrow> r \<noteq> [] \<Longrightarrow> \<not> P (hd r) \<Longrightarrow> dropWhile P (ds @ r) = r"
  by (induction ds) (auto simp: neq_Nil_conv)

lemma ws_not_digit: "isWhiteSpace c \<Longrightarrow> \<not> isDigit c"
  using digit_not_ws by blast

lemma ws_not_dash: "isWhiteSpace c \<Longrightarrow> \<not> isDash c"
  using dash_not_ws by blast

lemma tokenLength_token:
  assumes "isToken t" and "r \<noteq> []" and "isWhiteSpace (hd r)"
  shows "tokenLength (t @ r) = Some (length t)"
proof -
  consider (student) "map asciiUpper t = js ''STUDENT:''"
    | (name) "map asciiUpper t = js ''NAME:''"
    | (page) "map asciiUpper (take 5 t) = js ''PAGE ''" "drop 5 t \<noteq> []" "list_all isDigit (drop 5 t)"
    | (dashes) "5 \<le> length t" "list_all isDash t"
    using assms(1) unfolding isToken_def by auto
  then show ?thesis
  proof cases
    case student
    have "length (map asciiUpper t) = length (js ''STUDENT:'')"
      using student by simp
    then have "length t = 8" by (simp add: js_def)
    with student show ?thesis
      by (simp add: tokenLength_def)
  next
    case name
    have "length (map asciiUpper t) = length (js ''NAME:'')"
      using name by simp
    then have l: "length t = 5" by (simp add: js_def)
    then have "t \<noteq> []" by auto
    then have hd: "hd (t @ r) = hd t" by simp
    have "asciiUpper (hd t) = 0x4E"
      using name map_take_hd [of asciiUpper 5 t] l by (simp add: js_def)
    then have "map asciiUpper (take 8 (t @ r)) \<noteq> js ''STUDENT:''"
      using map_take_hd [of asciiUpper 8 "t @ r"] hd by (auto simp: js_def)
    with name l show ?thesis
      by (simp add: tokenLength_def)
  next
    case page
    from page(1) have l: "5 \<le> length t"
      by (rule map_take_length) (simp add: js_def)
    then have "t \<noteq> []" by auto
    then have hd: "hd (t @ r) = hd t" by simp
    have up: "asciiUpper (hd t) = 0x50"
      using page(1) map_take_hd [of asciiUpper 5 t] by (simp add: js_def)
    have a: "map asciiUpper (take 8 (t @ r)) \<noteq> js ''STUDENT:''"
      using map_take_hd [of asciiUpper 8 "t @ r"] hd up by (auto simp: js_def)
    have t5: "take 5 (t @ r) = take 5 t" and d5: "drop 5 (t @ r) = drop 5 t @ r"
      using l by simp_all
    have b: "map asciiUpper (take 5 (t @ r)) \<noteq> js ''NAME:''"
      unfolding t5 page(1) by (simp add: js_def)
    have tw: "takeWhile isDigit (drop 5 (t @ r)) = drop 5 t"
      unfolding d5 using page(3) assms(2,3) ws_not_digit by (intro takeWhile_append_stop) auto
    show ?thesis
      unfolding tokenLength_def tw using a b page(1,2) l by (simp add: t5)
  next
    case dashes
    then have ne: "t \<noteq> []" by auto
    then have hd: "hd (t @ r) = hd t" by simp
    have "hd t \<in> set t" using ne by simp
    with dashes(2) have "hd t = 0x2D" by (simp add: list_all_iff isDash_def)
    then have up: "asciiUpper (hd t) = 0x2D" by (simp add: asciiUpper_dash)
    have a: "map asciiUpper (take 8 (t @ r)) \<noteq> js ''STUDENT:''"
      using map_take_hd [of asciiUpper 8 "t @ r"] hd up by (auto simp: js_def)
    have b: "map asciiUpper (take 5 (t @ r)) \<noteq> js ''NAME:''"
      using map_take_hd [of asciiUpper 5 "t @ r"] hd up by (auto simp: js_def)
    have c: "map asciiUpper (take 5 (t @ r)) \<noteq> js ''PAGE ''"
      using map_take_hd [of asciiUpper 5 "t @ r"] hd up by (auto simp: js_def)
    have t4: "take 4 (t @ r) = take 4 t" and d4: "drop 4 (t @ r) = drop 4 t @ r"
      using dashes(1) by simp_all
    have alld: "\<forall>x\<in>set t. x = 0x2D"
      using dashes(2) by (simp add: list_all_iff isDash_def)
    have "take 4 t = replicate 4 0x2D"
    proof (rule replicate_eqI)
      show "length (take 4 t) = 4" using dashes(1) by simp
      show "\<And>y. y \<in> set (take 4 t) \<Longrightarrow> y = 0x2D"
        using alld by (auto dest: in_set_takeD)
    qed
    moreover have "replicate 4 x = [x, x, x, x]" for x :: code_unit
      by (simp add: numeral_eq_Suc)
    ultimately have "take 4 t = js ''----''"
      by (simp add: js_def)
    then have four: "map asciiUpper (take 4 (t @ r)) = js ''----''"
      unfolding t4 by (simp add: up_eq_dashes)
    have "list_all isDash (drop 4 t)"
      using dashes(2) by (auto simp: list_all_iff dest: in_set_dropD)
    then have tw: "takeWhile isDash (drop 4 (t @ r)) = drop 4 t"
      unfolding d4 using assms(2,3) ws_not_dash by (intro takeWhile_append_stop) auto
    show ?thesis
      unfolding tokenLength_def tw using a b c four dashes(1) by simp
  qed
qed

lemma dropWhile_ws_token:
  assumes "list_all isWhiteSpace w" and "isToken t"
  shows "dropWhile isWhiteSpace (w @ t @ r) = t @ r"
proof -
  from isToken_ends [OF assms(2)] have "t @ r \<noteq> []" "\<not> isWhiteSpace (hd (t @ r))"
    by simp_all
  with assms(1) show ?thesis
    by (intro dropWhile_append_stop) auto
qed

lemma delimiter_iff:
  "delimiter s = Some (tok, rest) \<longleftrightarrow>
     (\<exists>w1 w2. s = 0xA # w1 @ tok @ w2 @ 0xA # rest
        \<and> list_all isWhiteSpace w1 \<and> list_all isWhiteSpace w2 \<and> isToken tok
        \<and> 0xA \<notin> set (takeWhile isWhiteSpace rest))"
proof
  assume m: "delimiter s = Some (tok, rest)"
  then obtain cs where s: "s = 0xA # cs"
    unfolding delimiter_det by (cases s) (auto split: if_splits)
  let ?s2 = "dropWhile isWhiteSpace cs"
  from m obtain n where n: "tokenLength ?s2 = Some n"
    and tok: "tok = take n ?s2" and l: "lastNewline (drop n ?s2) = Some rest"
    unfolding delimiter_det s by (auto split: option.splits)
  from l obtain w2 where w2: "drop n ?s2 = w2 @ 0xA # rest" "list_all isWhiteSpace w2"
    "0xA \<notin> set (takeWhile isWhiteSpace rest)"
    unfolding lastNewline_Some by auto
  have "cs = takeWhile isWhiteSpace cs @ take n ?s2 @ drop n ?s2"
    by simp
  then have "s = 0xA # takeWhile isWhiteSpace cs @ tok @ w2 @ 0xA # rest"
    unfolding s tok w2(1) by simp
  moreover have "isToken tok"
    unfolding tok using tokenLength_Some [OF n] by simp
  ultimately show "\<exists>w1 w2. s = 0xA # w1 @ tok @ w2 @ 0xA # rest
        \<and> list_all isWhiteSpace w1 \<and> list_all isWhiteSpace w2 \<and> isToken tok
        \<and> 0xA \<notin> set (takeWhile isWhiteSpace rest)"
    using w2(2,3) list_all_takeWhile [of isWhiteSpace cs] by blast
next
  assume "\<exists>w1 w2. s = 0xA # w1 @ tok @ w2 @ 0xA # rest
        \<and> list_all isWhiteSpace w1 \<and> list_all isWhiteSpace w2 \<and> isToken tok
        \<and> 0xA \<notin> set (takeWhile isWhiteSpace rest)"
  then obtain w1 w2 where s: "s = 0xA # w1 @ tok @ w2 @ 0xA # rest"
    and w1: "list_all isWhiteSpace w1" and w2: "list_all isWhiteSpace w2"
    and t: "isToken tok" and r: "0xA \<notin> set (takeWhile isWhiteSpace rest)"
    by blast
  have d: "dropWhile isWhiteSpace (w1 @ tok @ w2 @ 0xA # rest) = tok @ w2 @ 0xA # rest"
    by (rule dropWhile_ws_token [OF w1 t])
  have "isWhiteSpace (hd (w2 @ 0xA # rest))"
    using w2 newline_ws by (cases w2) simp_all
  then have n: "tokenLength (tok @ w2 @ 0xA # rest) = Some (length tok)"
    by (intro tokenLength_token [OF t]) simp_all
  have l: "lastNewline (w2 @ 0xA # rest) = Some rest"
    unfolding lastNewline_Some using w2 r by blast
  show "delimiter s = Some (tok, rest)"
    unfolding delimiter_det s by (simp add: d n l)
qed

lemma delimiter_shorter:
  "delimiter s = Some (tok, rest) \<Longrightarrow> length rest < length s"
  unfolding delimiter_iff by auto

subsection \<open>The split\<close>

text \<open>
  \<open>String.prototype.split\<close> with a regular expression: from the end of the last match
  it tries the pattern at each position in turn; a match ends the current piece and
  appends the piece and the captured group. The text after the last match is the last
  piece. \<open>jsSplitFrom piece s\<close> has the characters \<open>piece\<close> of the current piece behind
  it and the text \<open>s\<close> before it.
\<close>

function jsSplitFrom :: "jsstring \<Rightarrow> jsstring \<Rightarrow> jsstring list" where
  "jsSplitFrom piece [] = [piece]"
| "jsSplitFrom piece (c # cs) =
     (case delimiter (c # cs) of
        None \<Rightarrow> jsSplitFrom (piece @ [c]) cs
      | Some (token, rest) \<Rightarrow> piece # token # jsSplitFrom [] rest)"
  by pat_completeness auto
termination jsSplitFrom
  by (relation "measure (\<lambda>(piece, s). length s)") (auto dest: delimiter_shorter)

definition jsSplit :: "jsstring \<Rightarrow> jsstring list" where
  "jsSplit s = jsSplitFrom [] s"

text \<open>
  The loop \<open>for (let i = 0; i < parts.length; i += 2)
  students.push(parts[i] + (parts[i + 1] ? "\n" + parts[i + 1] : ""))\<close>.
\<close>

fun pairParts :: "jsstring list \<Rightarrow> jsstring list" where
  "pairParts [] = []"
| "pairParts [a] = [a]"
| "pairParts (a # b # ps) = (a @ (if b \<noteq> [] then 0xA # b else [])) # pairParts ps"

definition splitStudentsFromText :: "jsstring \<Rightarrow> jsstring list" where
  "splitStudentsFromText text =
     (let parts = filter (\<lambda>t. 0 < length t) (map trim (jsSplit text))
      in if length parts \<le> 1 then [text] else pairParts parts)"

text \<open>
  The number of matches the split finds: its result holds a piece, and for every match
  the captured group and a piece.
\<close>

definition matchCount :: "jsstring \<Rightarrow> nat" where
  "matchCount s = length (jsSplit s) div 2"

text \<open>
  The shape of a split result \<open>[piece, token, piece, \<dots>, token, piece]\<close> in which
  every token is a token of the pattern and every piece but the last holds more than
  white space.
\<close>

fun chunksOk :: "jsstring list \<Rightarrow> bool" where
  "chunksOk [] = False"
| "chunksOk [p] = True"
| "chunksOk (p # t # ps) = (trim p \<noteq> [] \<and> isToken t \<and> chunksOk ps)"

text \<open>
  The segments that pair each token with the piece after it: for the list
  \<open>[piece, token, piece, \<dots>]\<close> that follows a token, the token joined by a newline to
  the piece trimmed, the last piece being left out when it is blank.
\<close>

fun segments :: "jsstring \<Rightarrow> jsstring list \<Rightarrow> jsstring list" where
  "segments tok [] = [tok]"
| "segments tok [p] = [tok @ (if trim p = [] then [] else 0xA # trim p)]"
| "segments tok (p # t # ps) = (tok @ 0xA # trim p) # segments t ps"



section \<open>Properties of the aggregation\<close>

subsection \<open>Auxiliary facts\<close>

lemma getProp_defined:
  "q \<noteq> Undefined \<Longrightarrow> q \<noteq> Null \<Longrightarrow> \<exists>v. getProp q k = Inr v"
  by (cases q) simp_all

lemma parseFloat_convertible:
  "convertible v \<Longrightarrow> parseFloat B v = Inr (parseFloatOf B v)"
  by (simp add: convertible_def parseFloat_def)

lemma toNumber_convertible:
  "convertible v \<Longrightarrow> toNumber B v = Inr (toNumberOf B v)"
  by (simp add: convertible_def toNumber_def)

lemma convertible_Number: "convertible (Number n)"
  by (simp add: convertible_def)

lemma addScore_defined:
  assumes "q \<noteq> Undefined" and "q \<noteq> Null"
    and "convertible (optChain q (js ''questionscore''))"
  shows "addScore B acc q = Inr (numAdd B acc (coercedScore B q))"
proof -
  obtain v where v: "getProp q (js ''questionscore'') = Inr v"
    using getProp_defined [OF assms(1,2)] by blast
  have c: "convertible v"
    using assms(3) v by (simp add: optChain_def)
  show ?thesis
    by (simp add: addScore_def coercedScore_def optChain_def v parseFloat_convertible [OF c]
                  orElse_def Let_def)
qed

lemma addMax_defined:
  assumes "q \<noteq> Undefined" and "q \<noteq> Null"
    and "convertible (optChain q (js ''maxscore''))"
  shows "addMax B acc q = Inr (numAdd B acc (countedMax B q))"
proof -
  obtain v where v: "getProp q (js ''maxscore'') = Inr v"
    using getProp_defined [OF assms(1,2)] by blast
  have c: "convertible v"
    using assms(3) v by (simp add: optChain_def)
  show ?thesis
    by (simp add: addMax_def countedMax_def optChain_def v parseFloat_convertible [OF c]
                  orElse_def Let_def)
qed

lemma reduce_addScore:
  "questionList qs \<Longrightarrow>
   reduce (addScore B) acc qs = Inr (foldl (numAdd B) acc (map (coercedScore B) qs))"
  by (induction qs arbitrary: acc) (simp_all add: questionList_def addScore_defined)

lemma reduce_addMax:
  "questionList qs \<Longrightarrow>
   reduce (addMax B) acc qs = Inr (foldl (numAdd B) acc (map (countedMax B) qs))"
  by (induction qs arbitrary: acc) (simp_all add: questionList_def addMax_defined)

lemma getProp_Arr_Obj:
  "getProp r k = Inr (Arr qs) \<Longrightarrow> \<exists>kvs. r = Obj kvs"
  by (cases r) simp_all

lemma calculateTotals_list:
  assumes "getProp r (js ''questions'') = Inr (Arr qs)" and "questionList qs"
    and "getProp r (js ''testworth'') = Inr tw" and "convertible tw"
    and "getProp r (js ''total_score'') = Inr ts" and "convertible ts"
  shows "calculateTotals B r =
           Inr (\<lparr>total = sumLeft B (map (coercedScore B) qs),
                 worth = (if toBoolean tw then tw
                          else Number (sumLeft B (map (countedMax B) qs))),
                 pct = (if jsless (Fin 0)
                             (toNumberOf B (if toBoolean tw then tw
                                            else Number (sumLeft B (map (countedMax B) qs))))
                        then numMul B
                               (numDiv B (sumLeft B (map (coercedScore B) qs))
                                  (toNumberOf B (if toBoolean tw then tw
                                     else Number (sumLeft B (map (countedMax B) qs)))))
                               (Fin 100)
                        else Fin 0)\<rparr>,
                toBoolean ts
                \<and> jsless hundredth
                     (jsabs (numSub B (toNumberOf B ts) (sumLeft B (map (coercedScore B) qs)))))"
proof -
  obtain kvs where r: "r = Obj kvs"
    using assms(1) getProp_Arr_Obj by blast
  show ?thesis
    using assms unfolding r calculateTotals_def mismatch_def sumLeft_def
    by (simp add: reduce_addScore reduce_addMax toNumber_convertible convertible_Number)
qed

lemma jsless_zero_nonzero:
  "jsless (Fin 0) d \<Longrightarrow> d \<noteq> Fin 0 \<and> d \<noteq> NegZero \<and> d \<noteq> NaN"
  by (cases d) simp_all

lemma calculateTotals_pct:
  assumes "calculateTotals B r = Inr (t, warned)"
  shows "\<exists>w. toNumber B (worth t) = Inr w
             \<and> pct t = (if jsless (Fin 0) w then numMul B (numDiv B (total t) w) (Fin 100)
                        else Fin 0)"
  using assms unfolding calculateTotals_def zeroTotals_def
  by (auto simp: toNumber_def split: if_splits sum.splits)

text \<open>
  An element \<open>null\<close> of the array is no question: reading its property throws, and
  so does \<open>calculateTotals\<close>.
\<close>

lemma calculateTotals_null_question:
  "calculateTotals B (Obj [(js ''questions'', Arr [Null])]) = Inl TypeError"
  by (simp add: calculateTotals_def addScore_def)

text \<open>
  A value that is not convertible makes \<open>calculateTotals\<close> throw where it is converted:
  a \<open>questionscore\<close> and a \<open>maxscore\<close> in \<open>parseFloat\<close>, a \<open>testworth\<close> in the test
  \<open>worth > 0\<close>, a \<open>total_score\<close> in the subtraction.
\<close>

lemma calculateTotals_not_convertible:
  "calculateTotals B
     (Obj [(js ''questions'', Arr [Obj [(js ''questionscore'', Obj [(js ''toString'', Null)])]])])
     = Inl TypeError
   \<and> calculateTotals B
     (Obj [(js ''questions'', Arr [Obj [(js ''maxscore'', Obj [(js ''toString'', Null)])]])])
     = Inl TypeError
   \<and> calculateTotals B
     (Obj [(js ''questions'', Arr []), (js ''testworth'', Obj [(js ''toString'', Null)])])
     = Inl TypeError
   \<and> calculateTotals B
     (Obj [(js ''questions'', Arr []), (js ''total_score'', Obj [(js ''toString'', Null)])])
     = Inl TypeError"
  by (simp add: calculateTotals_def addScore_def addMax_def parseFloat_def toNumber_def
                mismatch_def js_def)

subsection \<open>An absent result\<close>



subsection \<open>The total\<close>



subsection \<open>The worth\<close>

text \<open>
  C7, as the claim states it, fails: a question whose \<open>maxscore\<close> is the number 0 has a
  declared maximum, which coerced to a number is 0, yet \<open>calculateTotals\<close> counts the
  question as worth 1.
\<close>

theorem worth_zero_maxscore_counterexample:
  "calculateTotals plainBuiltins
     (Obj [(js ''questions'', Arr [Obj [(js ''maxscore'', Number (Fin 0))]])])
     = Inr (\<lparr>total = Fin 0, worth = Number (Fin 1), pct = Fin 0\<rparr>, False)
   \<and> sumLeft plainBuiltins
       (map (declaredMax plainBuiltins) [Obj [(js ''maxscore'', Number (Fin 0))]]) = Fin 0"
  by (simp add: calculateTotals_def addScore_def addMax_def orElse_def mismatch_def
                parseFloat_def toNumber_def sumLeft_def declaredMax_def optChain_def
                plainBuiltins_def js_def)

text \<open>
  C7, amended. For a result whose \<open>questions\<close> property is a question list and whose
  \<open>testworth\<close> and \<open>total_score\<close> are missing or convertible, \<open>calculateTotals\<close>
  returns, and the \<open>worth\<close> is the value of \<open>testworth\<close> when that is truthy, and
  otherwise the sum over the questions, added in their order from 0, of \<open>maxscore\<close> read
  by \<open>parseFloat\<close>, where a \<open>maxscore\<close> that is missing, not numeric or zero counts
  as 1; in particular a missing \<open>maxscore\<close> counts as 1.
\<close>

theorem worth_is_declared_or_counted:
  assumes "getProp r (js ''questions'') = Inr (Arr qs)" and "questionList qs"
    and "getProp r (js ''testworth'') = Inr tw" and "convertible tw"
    and "convertible (optChain r (js ''total_score''))"
  shows "\<exists>t warned. calculateTotals B r = Inr (t, warned)
           \<and> worth t = (if toBoolean tw then tw
                        else Number (sumLeft B (map (countedMax B) qs)))
           \<and> (\<forall>q\<in>set qs. getProp q (js ''maxscore'') = Inr Undefined
                 \<longrightarrow> countedMax B q = Fin 1)"
proof -
  obtain kvs where r: "r = Obj kvs"
    using assms(1) getProp_Arr_Obj by blast
  obtain ts where ts: "getProp r (js ''total_score'') = Inr ts"
    unfolding r by simp
  have cts: "convertible ts"
    using assms(5) ts by (simp add: optChain_def)
  show ?thesis
    unfolding calculateTotals_list [OF assms(1,2,3,4) ts cts, of B]
    by (simp add: countedMax_def optChain_def)
qed

theorem worth_is_declared_or_counted_witness:
  "getProp (Obj [(js ''questions'', Arr [Obj [], Obj [(js ''maxscore'', Number (Fin 4))]])])
           (js ''questions'')
     = Inr (Arr [Obj [], Obj [(js ''maxscore'', Number (Fin 4))]])
   \<and> questionList [Obj [], Obj [(js ''maxscore'', Number (Fin 4))]]
   \<and> getProp (Obj [(js ''questions'', Arr [Obj [], Obj [(js ''maxscore'', Number (Fin 4))]])])
           (js ''testworth'') = Inr Undefined
   \<and> (\<exists>t warned.
         calculateTotals plainBuiltins
           (Obj [(js ''questions'', Arr [Obj [], Obj [(js ''maxscore'', Number (Fin 4))]])])
           = Inr (t, warned)
         \<and> worth t = Number (Fin 5))"
proof -
  let ?qs = "[Obj [], Obj [(js ''maxscore'', Number (Fin 4))]]"
  let ?r = "Obj [(js ''questions'', Arr ?qs)]"
  have q: "getProp ?r (js ''questions'') = Inr (Arr ?qs)"
    by (simp add: js_def)
  have l: "questionList ?qs"
    by (simp add: questionList_def convertible_def optChain_def js_def)
  have w: "getProp ?r (js ''testworth'') = Inr Undefined"
    by (simp add: js_def)
  have cw: "convertible Undefined"
    by (simp add: convertible_def)
  have cs: "convertible (optChain ?r (js ''total_score''))"
    by (simp add: convertible_def optChain_def js_def)
  have s: "sumLeft plainBuiltins (map (countedMax plainBuiltins) ?qs) = Fin 5"
    by (simp add: sumLeft_def countedMax_def optChain_def plainBuiltins_def js_def)
  from worth_is_declared_or_counted [OF q l w cw cs, of plainBuiltins] s q l w show ?thesis
    by auto
qed

subsection \<open>The percentage\<close>

text \<open>
  C8. Whenever \<open>calculateTotals\<close> returns, \<open>worth\<close> has converted to a number, and
  \<open>pct\<close> is \<open>(total / worth) * 100\<close>, in double arithmetic, when that number is greater
  than 0, and 0 otherwise, so 0 when \<open>worth\<close> is 0. The division stands under the test
  \<open>worth > 0\<close>, under which the divisor is neither a zero nor \<open>NaN\<close>.
\<close>

theorem pct_guarded:
  assumes "calculateTotals B r = Inr (t, warned)"
  shows "\<exists>w. toNumber B (worth t) = Inr w
           \<and> pct t = (if jsless (Fin 0) w then numMul B (numDiv B (total t) w) (Fin 100)
                      else Fin 0)
           \<and> (jsless (Fin 0) w \<longrightarrow> w \<noteq> Fin 0 \<and> w \<noteq> NegZero \<and> w \<noteq> NaN)
           \<and> (w = Fin 0 \<or> w = NegZero \<longrightarrow> pct t = Fin 0)"
proof -
  obtain w where w: "toNumber B (worth t) = Inr w"
    and p: "pct t = (if jsless (Fin 0) w then numMul B (numDiv B (total t) w) (Fin 100)
                     else Fin 0)"
    using calculateTotals_pct [OF assms] by blast
  show ?thesis
    using w p jsless_zero_nonzero [of w] by auto
qed

theorem pct_guarded_witness:
  "calculateTotals plainBuiltins
     (Obj [(js ''testworth'', Number (Fin 4)),
           (js ''questions'', Arr [Obj [(js ''questionscore'', Number (Fin 3))]])])
     = Inr (\<lparr>total = Fin 3, worth = Number (Fin 4), pct = Fin 75\<rparr>, False)
   \<and> calculateTotals plainBuiltins (Obj [(js ''questions'', Arr [])])
     = Inr (\<lparr>total = Fin 0, worth = Number (Fin 0), pct = Fin 0\<rparr>, False)"
proof -
  let ?r = "Obj [(js ''testworth'', Number (Fin 4)),
                 (js ''questions'', Arr [Obj [(js ''questionscore'', Number (Fin 3))]])]"
  have a: "calculateTotals plainBuiltins ?r
             = Inr (\<lparr>total = Fin 3, worth = Number (Fin 4),
                     pct = pct (fst (projr (calculateTotals plainBuiltins ?r)))\<rparr>, False)"
    by (simp add: calculateTotals_def addScore_def orElse_def mismatch_def parseFloat_def
                  toNumber_def plainBuiltins_def js_def)
  have b: "calculateTotals plainBuiltins (Obj [(js ''questions'', Arr [])])
             = Inr (\<lparr>total = Fin 0, worth = Number (Fin 0),
                     pct = pct (fst (projr (calculateTotals plainBuiltins
                                 (Obj [(js ''questions'', Arr [])]))))\<rparr>, False)"
    by (simp add: calculateTotals_def mismatch_def toNumber_def js_def)
  from pct_guarded [OF a] pct_guarded [OF b] a b show ?thesis
    by (simp add: toNumber_def plainBuiltins_def)
qed

section \<open>Properties of grading one record\<close>

subsection \<open>Auxiliary facts\<close>

lemma ticks_result [simp]: "result (ticks m k s) = result s"
  by (induction m k s rule: ticks.induct) simp_all

lemma ticks_gradedAt [simp]: "gradedAt (ticks m k s) = gradedAt s"
  by (induction m k s rule: ticks.induct) simp_all

lemma gradeOne_failed:
  assumes "fetched run = FetchRejected \<or> (\<exists>code. fetched run = FetchResponse code None)"
  shows "status (gradeOne B run s) = Error \<and> result (gradeOne B run s) = result s
         \<and> gradedAt (gradeOne B run s) = gradedAt s"
  using assms by (auto simp: gradeOne_def Let_def)

lemma gradeOne_text:
  assumes "fetched run = FetchResponse code (Some data)" and "messageContent data = Str text"
  shows "status (gradeOne B run s) = Displayed
         \<and> gradedAt (gradeOne B run s) = Str (now run)
         \<and> result (gradeOne B run s) =
             (case jsonParse B (cleanResponse text) of
                Some parsed \<Rightarrow> parsed | None \<Rightarrow> parseErrorResult text)"
  using assms by (simp add: gradeOne_def Let_def)

lemma gradeOne_cases:
  "(status (gradeOne B run s) = Error \<and> result (gradeOne B run s) = result s
      \<and> gradedAt (gradeOne B run s) = gradedAt s)
   \<or> (status (gradeOne B run s) = Displayed \<and> gradedAt (gradeOne B run s) = Str (now run))"
  by (simp add: gradeOne_def Let_def split: fetch_outcome.splits option.splits jsval.splits)

lemma gradeOne_status_code:
  "gradeOne B (run\<lparr>fetched := FetchResponse code body\<rparr>) s
     = gradeOne B (run\<lparr>fetched := FetchResponse code' body\<rparr>) s"
  by (simp add: gradeOne_def Let_def split: option.splits jsval.splits)

subsection \<open>Transport failure\<close>

text \<open>
  C2, as the claim states it, fails: the HTTP status of the response is never read. A
  response with status 401, whose body is the JSON object of an API error, has no
  message content; the empty text is given to \<open>JSON.parse\<close>, which throws, and the record
  ends \<open>displayed\<close> with the parse-error payload stored as its result.
\<close>

theorem non_success_status_counterexample:
  "gradeOne plainBuiltins
     \<lparr>fetched = FetchResponse 401
                  (Some (Obj [(js ''error'',
                     Obj [(js ''message'', Str (js ''Incorrect API key provided''))])])),
      ticksWhileFetching = 1, ticksWhileReading = 0, now = js ''2025-01-01T00:00:00.000Z''\<rparr>
     \<lparr>name = js ''a.txt'', content = js ''x'', result = Null, status = Idle,
      gradedAt = Null, elapsed = 0\<rparr>
   = \<lparr>name = js ''a.txt'', content = js ''x'',
      result = Obj [(js ''error'', Str (js ''Could not parse GPT response'')),
                    (js ''raw'', Str [])],
      status = Displayed, gradedAt = Str (js ''2025-01-01T00:00:00.000Z''), elapsed = 1\<rparr>"
  by (simp add: gradeOne_def messageContent_def optChain_def cleanResponse_def trim_def
        parseErrorResult_def plainBuiltins_def js_def numeral_2_eq_2 eval_nat_numeral)

text \<open>
  C2, amended. When the request fails in transport, that is the \<open>fetch\<close> rejects (the
  endpoint is unreachable) or the body of the response cannot be read as JSON, the record
  ends in the \<open>error\<close> status and no result is stored: \<open>result\<close> and \<open>gradedAt\<close> keep the
  values they had. The HTTP status is not inspected: two responses that differ in their
  status only leave the record in the same state. A parse failure is a different outcome:
  the record ends \<open>displayed\<close> with the parse-error payload as its result.
\<close>

theorem transport_failure_error:
  assumes "fetched run = FetchRejected \<or> (\<exists>code. fetched run = FetchResponse code None)"
  shows "status (gradeOne B run s) = Error
       \<and> result (gradeOne B run s) = result s
       \<and> gradedAt (gradeOne B run s) = gradedAt s
       \<and> (\<forall>code code' body.
            gradeOne B (run\<lparr>fetched := FetchResponse code body\<rparr>) s
              = gradeOne B (run\<lparr>fetched := FetchResponse code' body\<rparr>) s)
       \<and> (\<forall>code data text.
            messageContent data = Str text \<and> jsonParse B (cleanResponse text) = None
            \<longrightarrow> status (gradeOne B (run\<lparr>fetched := FetchResponse code (Some data)\<rparr>) s)
                  = Displayed
                \<and> result (gradeOne B (run\<lparr>fetched := FetchResponse code (Some data)\<rparr>) s)
                  = parseErrorResult text)"
proof -
  have parse: "status (gradeOne B (run\<lparr>fetched := FetchResponse code (Some data)\<rparr>) s)
                  = Displayed
               \<and> result (gradeOne B (run\<lparr>fetched := FetchResponse code (Some data)\<rparr>) s)
                  = parseErrorResult raw"
    if "messageContent data = Str raw" and "jsonParse B (cleanResponse raw) = None"
    for code data raw
    using gradeOne_text [of "run\<lparr>fetched := FetchResponse code (Some data)\<rparr>" code data raw B s]
      that by simp
  show ?thesis
    using gradeOne_failed [OF assms, of B s] gradeOne_status_code [where B = B and run = run and s = s] parse
    by blast
qed

theorem transport_failure_error_witness:
  "gradeOne plainBuiltins
     \<lparr>fetched = FetchRejected, ticksWhileFetching = 3, ticksWhileReading = 0,
      now = js ''2025-01-01T00:00:00.000Z''\<rparr>
     \<lparr>name = js ''a.txt'', content = js ''x'', result = Null, status = Idle,
      gradedAt = Null, elapsed = 0\<rparr>
   = \<lparr>name = js ''a.txt'', content = js ''x'', result = Null, status = Error,
      gradedAt = Null, elapsed = 3\<rparr>"
proof -
  let ?run = "\<lparr>fetched = FetchRejected, ticksWhileFetching = 3, ticksWhileReading = 0,
               now = js ''2025-01-01T00:00:00.000Z''\<rparr>"
  let ?s = "\<lparr>name = js ''a.txt'', content = js ''x'', result = Null, status = Idle,
             gradedAt = Null, elapsed = 0\<rparr>"
  have f: "fetched ?run = FetchRejected \<or> (\<exists>code. fetched ?run = FetchResponse code None)"
    by simp
  have rest: "name (gradeOne plainBuiltins ?run ?s) = js ''a.txt''
              \<and> content (gradeOne plainBuiltins ?run ?s) = js ''x''
              \<and> elapsed (gradeOne plainBuiltins ?run ?s) = 3"
    by (simp add: gradeOne_def eval_nat_numeral)
  from transport_failure_error [OF f, of plainBuiltins ?s] rest show ?thesis
    by (cases "gradeOne plainBuiltins ?run ?s") simp
qed

subsection \<open>The graded timestamp\<close>

text \<open>
  C5, as the claim states it, fails: the response text \<open>no key given\<close> is no JSON text, so
  \<open>JSON.parse\<close> throws, and the same update that stores the parse-error payload sets
  \<open>gradedAt\<close>.
\<close>

theorem gradedAt_parse_failure_counterexample:
  "gradeOne plainBuiltins
     \<lparr>fetched = FetchResponse 200
                  (Some (Obj [(js ''choices'',
                     Arr [Obj [(js ''message'', Obj [(js ''content'', Str (js ''no key given''))])]])])),
      ticksWhileFetching = 0, ticksWhileReading = 0, now = js ''2025-01-01T00:00:00.000Z''\<rparr>
     \<lparr>name = js ''a.txt'', content = js ''x'', result = Null, status = Idle,
      gradedAt = Null, elapsed = 0\<rparr>
   = \<lparr>name = js ''a.txt'', content = js ''x'',
      result = Obj [(js ''error'', Str (js ''Could not parse GPT response'')),
                    (js ''raw'', Str (js ''no key given''))],
      status = Displayed, gradedAt = Str (js ''2025-01-01T00:00:00.000Z''), elapsed = 0\<rparr>"
  by (simp add: gradeOne_def messageContent_def optChain_def cleanResponse_def trim_def
        parseErrorResult_def plainBuiltins_def js_def)

text \<open>
  C5, amended. \<open>gradeOne\<close> sets \<open>gradedAt\<close> to the current time exactly when the record
  ends \<open>displayed\<close>, and that includes every run in which parsing the response text
  fails; a run that does not end \<open>displayed\<close> ends in \<open>error\<close> and leaves \<open>gradedAt\<close> as
  it was.
\<close>

theorem gradedAt_set_when_displayed:
  "(status (gradeOne B run s) = Displayed \<longrightarrow> gradedAt (gradeOne B run s) = Str (now run))
   \<and> (status (gradeOne B run s) \<noteq> Displayed
        \<longrightarrow> status (gradeOne B run s) = Error \<and> gradedAt (gradeOne B run s) = gradedAt s)
   \<and> (\<forall>code data text.
        fetched run = FetchResponse code (Some data) \<and> messageContent data = Str text
          \<and> jsonParse B (cleanResponse text) = None
        \<longrightarrow> status (gradeOne B run s) = Displayed
            \<and> gradedAt (gradeOne B run s) = Str (now run))"
  using gradeOne_cases [of B run s] gradeOne_text [of run _ _ _ B s]
  by auto

theorem gradedAt_set_when_displayed_witness:
  "gradedAt (gradeOne (plainBuiltins\<lparr>jsonParse := [js ''{}'' \<mapsto> Obj []]\<rparr>)
      \<lparr>fetched = FetchResponse 200
                  (Some (Obj [(js ''choices'',
                     Arr [Obj [(js ''message'', Obj [(js ''content'', Str (js ''{}''))])]])])),
       ticksWhileFetching = 2, ticksWhileReading = 1, now = js ''2025-01-01T00:00:00.000Z''\<rparr>
      \<lparr>name = js ''a.txt'', content = js ''x'', result = Null, status = Idle,
       gradedAt = Null, elapsed = 0\<rparr>)
     = Str (js ''2025-01-01T00:00:00.000Z'')
   \<and> gradedAt (gradeOne plainBuiltins
      \<lparr>fetched = FetchResponse 502 None,
       ticksWhileFetching = 2, ticksWhileReading = 1, now = js ''2025-01-01T00:00:00.000Z''\<rparr>
      \<lparr>name = js ''a.txt'', content = js ''x'', result = Null, status = Idle,
       gradedAt = Null, elapsed = 0\<rparr>)
     = Null"
proof -
  let ?B = "plainBuiltins\<lparr>jsonParse := [js ''{}'' \<mapsto> Obj []]\<rparr>"
  let ?run = "\<lparr>fetched = FetchResponse 200
                  (Some (Obj [(js ''choices'',
                     Arr [Obj [(js ''message'', Obj [(js ''content'', Str (js ''{}''))])]])])),
       ticksWhileFetching = 2, ticksWhileReading = 1, now = js ''2025-01-01T00:00:00.000Z''\<rparr>"
  let ?run' = "\<lparr>fetched = FetchResponse 502 None,
       ticksWhileFetching = 2, ticksWhileReading = 1, now = js ''2025-01-01T00:00:00.000Z''\<rparr>"
  let ?s = "\<lparr>name = js ''a.txt'', content = js ''x'', result = Null, status = Idle,
       gradedAt = Null, elapsed = 0\<rparr>"
  have a: "status (gradeOne ?B ?run ?s) = Displayed"
    by (simp add: gradeOne_def messageContent_def optChain_def js_def)
  have b: "status (gradeOne plainBuiltins ?run' ?s) \<noteq> Displayed"
    by (simp add: gradeOne_def)
  from gradedAt_set_when_displayed [of ?B ?run ?s]
       gradedAt_set_when_displayed [of plainBuiltins ?run' ?s] a b
  show ?thesis by simp
qed

section \<open>Properties of the split\<close>

subsection \<open>Auxiliary facts\<close>

lemma pairParts_Nil: "pairParts ps = [] \<longleftrightarrow> ps = []"
  by (induction ps rule: pairParts.induct) simp_all



lemma jsSplitFrom_length: "odd (length (jsSplitFrom piece s))"
  by (induction piece s rule: jsSplitFrom.induct) (auto split: option.splits)

lemma jsSplitFrom_single:
  "length (jsSplitFrom piece s) = 1 \<Longrightarrow> jsSplitFrom piece s = [piece @ s]"
proof (induction piece s rule: jsSplitFrom.induct)
  case (1 piece)
  show ?case by simp
next
  case (2 piece c cs)
  show ?case
  proof (cases "delimiter (c # cs)")
    case None
    with 2 show ?thesis by simp
  next
    case (Some m)
    with "2.prems" show ?thesis by (cases m) simp
  qed
qed

lemma jsSplitFrom_triple:
  "jsSplitFrom piece s = [a, t, b] \<Longrightarrow> isToken t"
proof (induction piece s rule: jsSplitFrom.induct)
  case (1 piece)
  then show ?case by simp
next
  case (2 piece c cs)
  show ?case
  proof (cases "delimiter (c # cs)")
    case None
    with 2 show ?thesis by simp
  next
    case (Some m)
    obtain tok rest where m: "m = (tok, rest)" by (cases m)
    with "2.prems" Some have "tok = t" by simp
    with Some m show ?thesis
      using delimiter_iff [of "c # cs" tok rest] by auto
  qed
qed

lemma trim_token: "isToken t \<Longrightarrow> trim t = t"
proof -
  assume "isToken t"
  then have t: "t \<noteq> []" "\<not> isWhiteSpace (hd t)" "\<not> isWhiteSpace (last t)"
    using isToken_ends by simp_all
  then have "dropWhile isWhiteSpace t = t"
    by (cases t) simp_all
  moreover have "dropWhile isWhiteSpace (rev t) = rev t"
    using t by (cases "rev t") (simp_all add: last_rev [symmetric] hd_rev)
  ultimately show ?thesis by (simp add: trim_def)
qed

lemma trim_blank: "list_all isWhiteSpace w \<Longrightarrow> trim w = []"
proof -
  assume "list_all isWhiteSpace w"
  then have d: "dropWhile isWhiteSpace w = []"
    by (induction w) simp_all
  show ?thesis unfolding trim_def d by simp
qed


lemma trim_Nil_iff: "trim s = [] \<longleftrightarrow> list_all isWhiteSpace s"
proof
  assume "trim s = []"
  then have "dropWhile isWhiteSpace (rev (dropWhile isWhiteSpace s)) = []"
    by (simp add: trim_def)
  then have "\<forall>x\<in>set (dropWhile isWhiteSpace s). isWhiteSpace x"
    by (simp add: dropWhile_eq_Nil_conv)
  then have "dropWhile isWhiteSpace s = []"
    by (metis dropWhile_eq_Nil_conv dropWhile_idem)
  then show "list_all isWhiteSpace s"
    by (simp add: dropWhile_eq_Nil_conv list_all_iff)
next
  assume "list_all isWhiteSpace s"
  then show "trim s = []" by (rule trim_blank)
qed

lemma blank_before_newline:
  assumes "list_all isWhiteSpace piece"
  shows "0xA \<in> set (takeWhile isWhiteSpace (piece @ 0xA # cs))"
proof -
  have "takeWhile isWhiteSpace (piece @ 0xA # cs) = piece @ takeWhile isWhiteSpace (0xA # cs)"
    using assms by (simp add: list_all_iff takeWhile_append2)
  then show ?thesis by (simp add: newline_ws)
qed

lemma jsSplitFrom_chunksOk:
  "0xA \<notin> set (takeWhile isWhiteSpace (piece @ s)) \<Longrightarrow> chunksOk (jsSplitFrom piece s)"
proof (induction piece s rule: jsSplitFrom.induct)
  case (1 piece)
  show ?case by simp
next
  case (2 piece c cs)
  show ?case
  proof (cases "delimiter (c # cs)")
    case None
    with 2 show ?thesis by simp
  next
    case (Some m)
    obtain tok rest where m: "m = (tok, rest)" by (cases m)
    from Some m have d: "delimiter (c # cs) = Some (tok, rest)" by simp
    then have c: "c = 0xA" and tok: "isToken tok"
      and rest: "0xA \<notin> set (takeWhile isWhiteSpace ([] @ rest))"
      unfolding delimiter_iff by auto
    have "\<not> list_all isWhiteSpace piece"
      using "2.prems" blank_before_newline [of piece cs] unfolding c by blast
    then have "trim piece \<noteq> []"
      by (simp add: trim_Nil_iff)
    moreover have "chunksOk (jsSplitFrom [] rest)"
      using "2.IH"(2) [OF Some m [symmetric] rest] .
    ultimately show ?thesis
      using d tok by simp
  qed
qed

lemma jsSplitFrom_first:
  "jsSplitFrom piece s = [piece @ s]
   \<or> (\<exists>pre tok rest. jsSplitFrom piece s = pre # tok # jsSplitFrom [] rest
         \<and> isToken tok \<and> 0xA \<notin> set (takeWhile isWhiteSpace rest))"
proof (induction piece s rule: jsSplitFrom.induct)
  case (1 piece)
  show ?case by simp
next
  case (2 piece c cs)
  show ?case
  proof (cases "delimiter (c # cs)")
    case None
    with 2 show ?thesis by simp
  next
    case (Some m)
    obtain tok rest where m: "m = (tok, rest)" by (cases m)
    from Some m have d: "delimiter (c # cs) = Some (tok, rest)" by simp
    then have "isToken tok" "0xA \<notin> set (takeWhile isWhiteSpace rest)"
      unfolding delimiter_iff by auto
    with d show ?thesis by auto
  qed
qed

lemma chunksOk_odd: "chunksOk M \<Longrightarrow> odd (length M)"
  by (induction M rule: chunksOk.induct) simp_all

lemma parts_segments:
  "chunksOk M \<Longrightarrow> isToken tok \<Longrightarrow>
   pairParts (filter (\<lambda>t. 0 < length t) (map trim (tok # M))) = segments tok M"
proof (induction tok M rule: segments.induct)
  case (1 tok)
  then show ?case by simp
next
  case (2 tok p)
  then show ?case
    using trim_token [of tok] isToken_ends [of tok] by simp
next
  case (3 tok p t ps)
  then show ?case
    using trim_token [of tok] isToken_ends [of tok] by simp
qed

lemma length_segments: "chunksOk M \<Longrightarrow> length (segments tok M) = (length M + 1) div 2"
  by (induction tok M rule: segments.induct) simp_all

lemma nth_segments:
  "chunksOk M \<Longrightarrow> i < length (segments tok M) \<Longrightarrow>
   segments tok M ! i =
     (tok # M) ! (2 * i)
     @ (if trim ((tok # M) ! (2 * i + 1)) = [] then []
        else 0xA # trim ((tok # M) ! (2 * i + 1)))"
proof (induction tok M arbitrary: i rule: segments.induct)
  case (1 tok)
  then show ?case by simp
next
  case (2 tok p)
  then show ?case by simp
next
  case (3 tok p t ps)
  show ?case
  proof (cases i)
    case 0
    with "3.prems" show ?thesis by simp
  next
    case (Suc j)
    with "3.prems" have "j < length (segments t ps)" "chunksOk ps" by simp_all
    from "3.IH" [OF this(2,1)] Suc show ?thesis by simp
  qed
qed










subsection \<open>The result is never empty\<close>

text \<open>
  C10. For every input, the empty text and a text of white space included,
  \<open>splitStudentsFromText\<close> returns a list with at least one element.
\<close>

theorem split_never_empty: "splitStudentsFromText text \<noteq> []"
proof -
  define parts where "parts = filter (\<lambda>t. 0 < length t) (map trim (jsSplit text))"
  have "splitStudentsFromText text = (if length parts \<le> 1 then [text] else pairParts parts)"
    by (simp add: splitStudentsFromText_def parts_def)
  moreover have "pairParts parts \<noteq> []" if "\<not> length parts \<le> 1"
    using that by (auto simp: pairParts_Nil)
  ultimately show ?thesis by simp
qed

theorem split_never_empty_witness:
  "splitStudentsFromText [] = [[]] \<and> splitStudentsFromText (js ''  '') \<noteq> []"
proof -
  have "splitStudentsFromText [] = [[]]" by code_simp
  with split_never_empty [of "js ''  ''"] show ?thesis by simp
qed

subsection \<open>The delimiter lines\<close>




subsection \<open>No match, one match\<close>

text \<open>
  C3, as the claim states it, fails twice. With no match the input comes back as it is,
  not trimmed. With one match and text on both sides of it the result has two elements.
\<close>

theorem split_one_match_counterexample:
  "matchCount (js '' a'') = 0
   \<and> splitStudentsFromText (js '' a'') = [js '' a'']
   \<and> [js '' a''] \<noteq> [trim (js '' a'')]
   \<and> matchCount (js ''a\<newline>Student:\<newline>b'') = 1
   \<and> splitStudentsFromText (js ''a\<newline>Student:\<newline>b'') = [js ''a\<newline>Student:'', js ''b'']"
  by code_simp

text \<open>
  C3, amended. For a text with no delimiter match, \<open>splitStudentsFromText\<close> returns
  the one-element list holding the text itself, not trimmed. For a text with one match
  that only white space precedes, it returns one element too: the delimiter token, a
  newline and the trimmed text after the match, or, when only white space follows the
  match, the text itself.
\<close>

theorem split_no_or_one_match:
  "(matchCount text = 0 \<longrightarrow> splitStudentsFromText text = [text])
   \<and> (\<forall>pre tok rest.
        jsSplit text = [pre, tok, rest] \<and> trim pre = []
        \<longrightarrow> splitStudentsFromText text =
              (if trim rest = [] then [text] else [tok @ 0xA # trim rest]))"
proof -
  have zero: "splitStudentsFromText text = [text]" if "matchCount text = 0"
  proof -
    have "odd (length (jsSplit text))"
      unfolding jsSplit_def by (rule jsSplitFrom_length)
    with that have "length (jsSplit text) = 1"
      unfolding matchCount_def by (auto elim!: oddE)
    then have "jsSplit text = [text]"
      unfolding jsSplit_def using jsSplitFrom_single [of "[]" "text"] by simp
    then show ?thesis
      by (simp add: splitStudentsFromText_def)
  qed
  have one: "splitStudentsFromText text =
              (if trim rest = [] then [text] else [tok @ 0xA # trim rest])"
    if "jsSplit text = [pre, tok, rest]" and "trim pre = []" for pre tok rest
  proof -
    from that(1) have t: "isToken tok"
      unfolding jsSplit_def by (rule jsSplitFrom_triple)
    then have "trim tok = tok" "tok \<noteq> []"
      using trim_token isToken_ends by simp_all
    with that show ?thesis
      by (simp add: splitStudentsFromText_def)
  qed
  from zero one show ?thesis by blast
qed

theorem split_no_or_one_match_witness:
  "matchCount (js ''x y'') = 0
   \<and> splitStudentsFromText (js ''x y'') = [js ''x y'']
   \<and> jsSplit (js '' \<newline>Name:\<newline> b '') = [js '' '', js ''Name:'', js '' b '']
   \<and> trim (js '' '') = []
   \<and> splitStudentsFromText (js '' \<newline>Name:\<newline> b '') = [js ''Name:\<newline>b'']"
proof -
  have a: "matchCount (js ''x y'') = 0" by code_simp
  have b: "jsSplit (js '' \<newline>Name:\<newline> b '') = [js '' '', js ''Name:'', js '' b '']" by code_simp
  have c: "trim (js '' '') = []" by code_simp
  have d: "trim (js '' b '') = js ''b''" by code_simp
  have e: "js ''Name:'' @ 0xA # js ''b'' = js ''Name:\<newline>b''" by code_simp
  from split_no_or_one_match [of "js ''x y''"] a
  have "splitStudentsFromText (js ''x y'') = [js ''x y'']" by simp
  moreover from split_no_or_one_match [of "js '' \<newline>Name:\<newline> b ''"] b c d e
  have "splitStudentsFromText (js '' \<newline>Name:\<newline> b '') = [js ''Name:\<newline>b'']"
    by (simp add: js_def)
  ultimately show ?thesis using a b c by simp
qed

subsection \<open>The pairing of delimiters and chunks\<close>

text \<open>
  C1, as the claim states it, fails. The text below has three students, each opened by a
  line \<open>Name:\<close>. The pattern needs a newline before the token, so the first line is no
  match and the text has two matches. The loop pairs the parts from the first one on,
  which here is the text before the first match: each delimiter ends up at the end of the
  chunk before it, and there are three segments for two matches, two of which start with
  no delimiter line.
\<close>

theorem pairing_misaligned:
  "matchCount (js ''Name:\<newline>Al\<newline>Name:\<newline>Bo\<newline>Name:\<newline>Cy'') = 2
   \<and> splitStudentsFromText (js ''Name:\<newline>Al\<newline>Name:\<newline>Bo\<newline>Name:\<newline>Cy'')
       = [js ''Name:\<newline>Al\<newline>Name:'', js ''Bo\<newline>Name:'', js ''Cy'']"
  by code_simp

text \<open>
  C1, amended. For every text in which only white space precedes the first match and the
  pattern matches \<open>k \<ge> 2\<close> times, \<open>splitStudentsFromText\<close> returns exactly \<open>k\<close>
  segments, and segment \<open>i\<close> starts with the token of match \<open>i\<close>: it is that token,
  followed, when the chunk after the match is not blank, by a newline and the chunk
  trimmed. In the result of the split the token of match \<open>i\<close> (counted from 0) stands at
  index \<open>2i + 1\<close> and the chunk after it at index \<open>2i + 2\<close>.
\<close>

theorem split_pairs_aligned:
  assumes "trim (hd (jsSplit text)) = []" and "2 \<le> matchCount text"
  shows "length (splitStudentsFromText text) = matchCount text
       \<and> (\<forall>i<matchCount text.
            splitStudentsFromText text ! i =
              jsSplit text ! (2 * i + 1)
              @ (if trim (jsSplit text ! (2 * i + 2)) = [] then []
                 else 0xA # trim (jsSplit text ! (2 * i + 2))))"
proof -
  from jsSplitFrom_first [of "[]" "text"] assms(2)
  obtain pre tok rest where out: "jsSplit text = pre # tok # jsSplitFrom [] rest"
    and tok: "isToken tok" and rest: "0xA \<notin> set (takeWhile isWhiteSpace rest)"
    unfolding matchCount_def jsSplit_def by auto
  define M where "M = jsSplitFrom [] rest"
  have ok: "chunksOk M"
    unfolding M_def using jsSplitFrom_chunksOk [of "[]" rest] rest by simp
  have pre: "trim pre = []"
    using assms(1) out by simp
  have k: "matchCount text = (length M + 1) div 2"
    using chunksOk_odd [OF ok] unfolding matchCount_def out M_def [symmetric]
    by (auto elim!: oddE)
  with assms(2) have "3 \<le> length M"
    using chunksOk_odd [OF ok] by (auto elim!: oddE)
  then obtain p t ps where M: "M = p # t # ps"
    by (cases M; simp; cases "tl M"; simp)
  with ok have p: "trim p \<noteq> []" and t: "isToken t" by simp_all
  have parts: "filter (\<lambda>t. 0 < length t) (map trim (jsSplit text))
                 = filter (\<lambda>t. 0 < length t) (map trim (tok # M))"
    unfolding out M_def [symmetric] using pre by simp
  have "\<not> length (filter (\<lambda>t. 0 < length t) (map trim (tok # M))) \<le> 1"
    unfolding M using p trim_token [OF tok] isToken_ends [OF tok] by simp
  then have res: "splitStudentsFromText text = segments tok M"
    unfolding splitStudentsFromText_def parts Let_def
    using parts_segments [OF ok tok] by simp
  have nth: "jsSplit text ! (2 * i + 1) = (tok # M) ! (2 * i)"
            "jsSplit text ! (2 * i + 2) = (tok # M) ! (2 * i + 1)" for i
    unfolding out M_def [symmetric] by simp_all
  show ?thesis
    unfolding res nth k using length_segments [OF ok, of tok] nth_segments [OF ok, of _ tok]
    by simp
qed

theorem split_pairs_aligned_witness:
  "trim (hd (jsSplit (js ''\<newline>Name:\<newline>Al\<newline>\<newline>name:\<newline> Bo \<newline>Page 2\<newline>''))) = []
   \<and> matchCount (js ''\<newline>Name:\<newline>Al\<newline>\<newline>name:\<newline> Bo \<newline>Page 2\<newline>'') = 3
   \<and> length (splitStudentsFromText (js ''\<newline>Name:\<newline>Al\<newline>\<newline>name:\<newline> Bo \<newline>Page 2\<newline>'')) = 3
   \<and> splitStudentsFromText (js ''\<newline>Name:\<newline>Al\<newline>\<newline>name:\<newline> Bo \<newline>Page 2\<newline>'') ! 0
       = js ''Name:\<newline>Al''
   \<and> splitStudentsFromText (js ''\<newline>Name:\<newline>Al\<newline>\<newline>name:\<newline> Bo \<newline>Page 2\<newline>'') ! 1
       = js ''name:\<newline>Bo''
   \<and> splitStudentsFromText (js ''\<newline>Name:\<newline>Al\<newline>\<newline>name:\<newline> Bo \<newline>Page 2\<newline>'') ! 2
       = js ''Page 2''"
proof -
  let ?t = "js ''\<newline>Name:\<newline>Al\<newline>\<newline>name:\<newline> Bo \<newline>Page 2\<newline>''"
  have out: "jsSplit ?t = [[], js ''Name:'', js ''Al'', js ''name:'', js '' Bo '', js ''Page 2'', []]"
    by code_simp
  have a: "trim (hd (jsSplit ?t)) = []" unfolding out by code_simp
  have b: "matchCount ?t = 3" unfolding matchCount_def out by simp
  have c: "trim (js ''Al'') = js ''Al''" "trim (js '' Bo '') = js ''Bo''" "trim [] = []"
    by code_simp+
  have b2: "2 \<le> matchCount ?t" using b by simp
  from split_pairs_aligned [OF a b2]
  have len: "length (splitStudentsFromText ?t) = 3"
    and n: "\<forall>i<3. splitStudentsFromText ?t ! i =
              jsSplit ?t ! (2 * i + 1)
              @ (if trim (jsSplit ?t ! (2 * i + 2)) = [] then []
                 else 0xA # trim (jsSplit ?t ! (2 * i + 2)))"
    unfolding b by simp_all
  from n have "splitStudentsFromText ?t ! 0 = js ''Name:\<newline>Al''"
    "splitStudentsFromText ?t ! 1 = js ''name:\<newline>Bo''"
    "splitStudentsFromText ?t ! 2 = js ''Page 2''"
    unfolding out by (simp_all add: c) (simp_all add: js_def)
  with len a b show ?thesis by simp
qed

end
